(* ===== verification/Prelude.thy ===== *)
theory Prelude
  imports Main "HOL-Library.Word"
begin

text \<open>
  Shared vocabulary of the monolog development: the machine types of the Go sources
  (\<open>byte\<close>, \<open>uint32\<close>, \<open>uint64\<close>, and \<open>int64\<close> kept as its 64-bit pattern), the one
  error type every component returns, Go's slice operations with their runtime panics,
  the part of the operating system the index and the store call (\<open>os.Truncate\<close>,
  \<open>gommap.Map\<close>, \<open>ReadAt\<close>) over a file system that maps names to byte lists, and the
  list lemmas those operations share.
\<close>

unbundle bit_operations_syntax

type_synonym byte = "8 word"
type_synonym u32 = "32 word"
type_synonym u64 = "64 word"
type_synonym i64 = "64 word" \<comment> \<open>an \<open>int64\<close>, read with \<open>sint\<close> where its sign matters\<close>

text \<open>
  Go's \<open>error\<close> values that occur in the engine and the server. \<open>SlicePanic\<close> is not an
  error value but Go's run-time panic on a slice expression out of bounds; it is kept
  as an outcome of its own so that no out-of-range access of the source is hidden.
\<close>

datatype error =
    EOF                                \<comment> \<open>\<open>io.EOF\<close>\<close>
  | EINVAL                             \<comment> \<open>\<open>syscall.EINVAL\<close> from truncate or mmap\<close>
  | ENOENT                             \<comment> \<open>\<open>os.Stat\<close> of a missing file\<close>
  | ErrOffsetNotFound                  \<comment> \<open>\<open>server.ErrOffsetNotFound\<close>\<close>
  | ErrOffsetOutOfRange u64            \<comment> \<open>\<open>api.ErrOffsetOutOfRange{Offset}\<close>\<close>
  | SlicePanic                         \<comment> \<open>runtime error: slice bounds out of range\<close>

type_synonym 'a result = "error + 'a"

text \<open>A directory of files: a file name maps to the file's bytes.\<close>

type_synonym fs = "string \<rightharpoonup> byte list"

text \<open>
  The engine's configuration \<open>log.Config\<close> (declared in \<open>config.go\<close>, not under
  \<open>src/\<close>): \<open>Config{Segment: {MaxStoreBytes, MaxIndexBytes, InitialOffset}}\<close>, all
  \<open>uint64\<close>.
\<close>

record segment_config =
  MaxStoreBytes :: u64
  MaxIndexBytes :: u64
  InitialOffset :: u64

record Config =
  Segment :: segment_config

named_theorems go_simps "evaluation rules of the Go and OS helpers"

subsection \<open>Go slices\<close>

text \<open>
  \<open>s[lo:hi]\<close> on a slice whose capacity is its length: a panic unless
  \<open>lo \<le> hi \<le> len(s)\<close>; indices are \<open>uint64\<close>.
\<close>

definition go_slice :: "byte list \<Rightarrow> u64 \<Rightarrow> u64 \<Rightarrow> byte list result" where
  "go_slice s lo hi =
     (if lo \<le> hi \<and> unat hi \<le> length s then Inr (take (unat hi - unat lo) (drop (unat lo) s))
      else Inl SlicePanic)"

text \<open>
  Writing the bytes \<open>bs\<close> into \<open>s[lo:hi]\<close> (what \<open>binary.BigEndian.PutUint32\<close> and
  \<open>PutUint64\<close> do to the slice they are given): the slice expression may panic, and the
  put panics when the slice is shorter than the encoding.
\<close>

definition overwrite :: "byte list \<Rightarrow> nat \<Rightarrow> byte list \<Rightarrow> byte list" where
  "overwrite s at bs = take at s @ bs @ drop (at + length bs) s"

definition go_put :: "byte list \<Rightarrow> u64 \<Rightarrow> u64 \<Rightarrow> byte list \<Rightarrow> byte list result" where
  "go_put s lo hi bs =
     (if lo \<le> hi \<and> unat hi \<le> length s \<and> length bs \<le> unat hi - unat lo
      then Inr (overwrite s (unat lo) bs) else Inl SlicePanic)"

subsection \<open>The operating system\<close>

text \<open>
  \<open>os.Truncate\<close> and \<open>(*os.File).Truncate\<close> with an \<open>int64\<close> size: a negative size is
  \<open>EINVAL\<close>; otherwise the file is cut, or extended with zero bytes.
\<close>

definition os_truncate :: "byte list \<Rightarrow> i64 \<Rightarrow> byte list result" where
  "os_truncate d n =
     (if sint n < 0 then Inl EINVAL
      else Inr (take (nat (sint n)) d @ replicate (nat (sint n) - length d) 0))"

text \<open>
  \<open>gommap.Map(fd, prot, MAP_SHARED)\<close> maps the whole file, whose length it takes from
  \<open>fstat\<close>; \<open>mmap\<close> of length 0 fails with \<open>EINVAL\<close>. The shared mapping and the file
  show the same bytes.
\<close>

definition gommap_Map :: "byte list \<Rightarrow> byte list result" where
  "gommap_Map d = (if d = [] then Inl EINVAL else Inr d)"

text \<open>\<open>(*os.File).ReadAt(b, off)\<close> with \<open>len(b) = n\<close>: \<open>io.EOF\<close> when fewer bytes remain.\<close>

definition read_at :: "byte list \<Rightarrow> i64 \<Rightarrow> nat \<Rightarrow> byte list result" where
  "read_at d off n =
     (if sint off < 0 then Inl EINVAL
      else if nat (sint off) + n \<le> length d then Inr (take n (drop (nat (sint off)) d))
      else Inl EOF)"

lemmas [go_simps] = go_slice_def go_put_def os_truncate_def gommap_Map_def read_at_def

subsection \<open>Shared list lemmas\<close>

lemma length_overwrite [simp]:
  "at + length bs \<le> length s \<Longrightarrow> length (overwrite s at bs) = length s"
  by (simp add: overwrite_def)

lemma take_overwrite [simp]:
  "at + length bs \<le> length s \<Longrightarrow> take at (overwrite s at bs) = take at s"
  by (simp add: overwrite_def)

lemma drop_take_overwrite [simp]:
  "at + length bs \<le> length s \<Longrightarrow> take (length bs) (drop at (overwrite s at bs)) = bs"
  by (simp add: overwrite_def)

lemma take_drop_overwrite_before:
  "j + n \<le> at \<Longrightarrow> at + length bs \<le> length s \<Longrightarrow>
   take n (drop j (overwrite s at bs)) = take n (drop j s)"
  by (simp add: overwrite_def take_drop min_def)

lemma drop_overwrite_after:
  "at + length bs \<le> j \<Longrightarrow> at + length bs \<le> length s \<Longrightarrow>
   drop j (overwrite s at bs) = drop j s"
  by (simp add: overwrite_def)

lemma os_truncate_nonneg:
  "0 \<le> sint n \<Longrightarrow>
   os_truncate d n = Inr (take (nat (sint n)) d @ replicate (nat (sint n) - length d) 0)"
  by (simp add: os_truncate_def)

lemma length_os_truncate:
  "os_truncate d n = Inr d' \<Longrightarrow> length d' = nat (sint n)"
  by (auto simp: os_truncate_def split: if_splits)

lemma sint_of_nat_small:
  assumes "k < 2 ^ 63"
  shows "sint (word_of_nat k :: 64 word) = int k"
proof -
  have "(word_of_nat k :: 64 word) = word_of_int (int k)"
    by simp
  moreover have "sint (word_of_int (int k) :: 64 word) = signed_take_bit 63 (int k)"
    unfolding sint_sbintrunc' by simp
  moreover have "signed_take_bit 63 (int k) = int k"
    using assms by (intro signed_take_bit_int_eq_self) simp_all
  ultimately show ?thesis
    by simp
qed

lemma unat_of_nat_small:
  "k < 2 ^ 64 \<Longrightarrow> unat (word_of_nat k :: 64 word) = k"
  by (simp add: unat_of_nat take_bit_nat_eq_self)


subsection \<open>Shared word lemmas\<close>

lemma unat_minus_one_u64: "unat (-1 :: u64) = 2 ^ 64 - 1"
  by (simp add: unsigned_minus_1_eq_mask mask_eq_exp_minus_1)

lemma neq_minus_one_u64: "unat (w::u64) < 2 ^ 64 - 1 \<Longrightarrow> w \<noteq> -1"
  using unat_minus_one_u64 by auto

lemma unat_add_no_wrap:
  "unat (a::u64) + unat b < 2 ^ 64 \<Longrightarrow> unat (a + b) = unat a + unat b"
  using unat_add_lem [of a b] by simp

lemma unat_u32_lt: "unat (out::u32) < 2 ^ 32"
  using unsigned_less[of out] by simp

lemma unat_ucast_u32_u64 [simp]: "unat (ucast (out::u32) :: u64) = unat out"
  using unat_u32_lt[of out] by (simp add: unsigned_ucast_eq take_bit_nat_eq_self_iff)

lemma unat_ucast_u64_u32: "unat (ucast (w::u64) :: u32) = unat w mod 2 ^ 32"
  by (simp add: unsigned_ucast_eq take_bit_eq_mod unsigned_take_bit_eq)

lemma ucast_u32_u64_u32 [simp]: "ucast (ucast (x :: u32) :: u64) = x"
  by (rule bit_word_eqI) (simp add: bit_ucast_iff)

lemma sint_u64_small: "unat (w::u64) < 2 ^ 63 \<Longrightarrow> sint w = int (unat w)"
  using sint_of_nat_small[of "unat w"] by simp

end
