(* ===== verification/Enc.thy ===== *)
theory Enc
  imports Prelude
begin

text \<open>
  The engine's codec \<open>enc = binary.BigEndian\<close> (declared in the package's \<open>store.go\<close>,
  which is not under \<open>src/\<close>; its operations are those of Go's \<open>encoding/binary\<close>,
  written here as that package writes them): \<open>PutUint32\<close>/\<open>PutUint64\<close> store the most
  significant byte first, \<open>Uint32\<close>/\<open>Uint64\<close> read the bytes back with shifts and ORs.
  The theory proves that decoding inverts encoding at both widths and gives the lengths
  the index layout relies on.
\<close>

definition be_PutUint32 :: "u32 \<Rightarrow> byte list" where
  "be_PutUint32 v =
     [ucast (drop_bit 24 v), ucast (drop_bit 16 v), ucast (drop_bit 8 v), ucast v]"

definition be_Uint32 :: "byte list \<Rightarrow> u32" where
  "be_Uint32 b =
     ucast (b ! 3) OR push_bit 8 (ucast (b ! 2)) OR push_bit 16 (ucast (b ! 1))
     OR push_bit 24 (ucast (b ! 0))"

definition be_PutUint64 :: "u64 \<Rightarrow> byte list" where
  "be_PutUint64 v =
     [ucast (drop_bit 56 v), ucast (drop_bit 48 v), ucast (drop_bit 40 v), ucast (drop_bit 32 v),
      ucast (drop_bit 24 v), ucast (drop_bit 16 v), ucast (drop_bit 8 v), ucast v]"

definition be_Uint64 :: "byte list \<Rightarrow> u64" where
  "be_Uint64 b =
     ucast (b ! 7) OR push_bit 8 (ucast (b ! 6)) OR push_bit 16 (ucast (b ! 5))
     OR push_bit 24 (ucast (b ! 4)) OR push_bit 32 (ucast (b ! 3)) OR push_bit 40 (ucast (b ! 2))
     OR push_bit 48 (ucast (b ! 1)) OR push_bit 56 (ucast (b ! 0))"

subsection \<open>Bits of the byte conversions\<close>

lemma bit_byte_of_word: "bit (ucast (w::'a::len word) :: byte) n \<longleftrightarrow> n < 8 \<and> bit w n"
  by (simp add: bit_ucast_iff)

lemma bit_word_of_byte:
  "bit (ucast (b::byte) :: 'a::len word) n \<longleftrightarrow> n < LENGTH('a) \<and> n < 8 \<and> bit b n"
  by (auto simp add: bit_ucast_iff dest: bit_imp_le_length)

lemma bit_push_byte:
  "bit (push_bit k (ucast (b::byte)) :: 'a::len word) n \<longleftrightarrow>
   n < LENGTH('a) \<and> k \<le> n \<and> n < k + 8 \<and> bit b (n - k)"
  by (auto simp add: bit_push_bit_iff bit_word_of_byte)

lemma bit_byte_drop: "bit (ucast (drop_bit k (w::'a::len word)) :: byte) m \<longleftrightarrow> m < 8 \<and> bit w (k + m)"
  by (simp add: bit_byte_of_word bit_drop_bit_eq)

lemmas be_bit_simps =
  bit_or_iff bit_push_byte bit_byte_drop bit_word_of_byte bit_ucast_iff less_diff_conv2
  bit_drop_bit_eq

subsection \<open>Round trips and lengths\<close>

lemma be_Uint32_PutUint32 [simp]: "be_Uint32 (be_PutUint32 v) = v"
proof (rule bit_word_eqI)
  fix n assume n: "n < LENGTH(32)"
  have "bit (be_Uint32 (be_PutUint32 v)) n \<longleftrightarrow>
        (n < 8 \<and> bit v n) \<or> (8 \<le> n \<and> n < 16 \<and> bit v n) \<or> (16 \<le> n \<and> n < 24 \<and> bit v n)
      \<or> (24 \<le> n \<and> n < 32 \<and> bit v n)"
    unfolding be_Uint32_def be_PutUint32_def
    using n by (simp add: be_bit_simps cong: conj_cong)
  also have "\<dots> \<longleftrightarrow> bit v n"
  proof -
    have "n < 8 \<or> 8 \<le> n \<and> n < 16 \<or> 16 \<le> n \<and> n < 24 \<or> 24 \<le> n \<and> n < 32"
      using n by simp arith
    then show ?thesis by blast
  qed
  finally show "bit (be_Uint32 (be_PutUint32 v)) n = bit v n" .
qed

lemma be_Uint64_PutUint64 [simp]: "be_Uint64 (be_PutUint64 v) = v"
proof (rule bit_word_eqI)
  fix n assume n: "n < LENGTH(64)"
  have "bit (be_Uint64 (be_PutUint64 v)) n \<longleftrightarrow>
        (n < 8 \<and> bit v n) \<or> (8 \<le> n \<and> n < 16 \<and> bit v n) \<or> (16 \<le> n \<and> n < 24 \<and> bit v n)
      \<or> (24 \<le> n \<and> n < 32 \<and> bit v n) \<or> (32 \<le> n \<and> n < 40 \<and> bit v n) \<or> (40 \<le> n \<and> n < 48 \<and> bit v n)
      \<or> (48 \<le> n \<and> n < 56 \<and> bit v n) \<or> (56 \<le> n \<and> n < 64 \<and> bit v n)"
    unfolding be_Uint64_def be_PutUint64_def
    using n by (simp add: be_bit_simps cong: conj_cong)
  also have "\<dots> \<longleftrightarrow> bit v n"
  proof -
    have "n < 8 \<or> 8 \<le> n \<and> n < 16 \<or> 16 \<le> n \<and> n < 24 \<or> 24 \<le> n \<and> n < 32 \<or> 32 \<le> n \<and> n < 40
      \<or> 40 \<le> n \<and> n < 48 \<or> 48 \<le> n \<and> n < 56 \<or> 56 \<le> n \<and> n < 64"
      using n by simp arith
    then show ?thesis by blast
  qed
  finally show "bit (be_Uint64 (be_PutUint64 v)) n = bit v n" .
qed

lemma length_be_PutUint32 [simp]: "length (be_PutUint32 v) = 4"
  by (simp add: be_PutUint32_def)

lemma length_be_PutUint64 [simp]: "length (be_PutUint64 v) = 8"
  by (simp add: be_PutUint64_def)

end
