(* ===== verification/Index.thy ===== *)
theory Index
  imports Enc
begin

text \<open>
  The index of a segment, \<open>src/internal/log/index.go\<close>. An index is a file of 12-byte
  entries (a 4-byte relative offset and an 8-byte store position, big-endian) that
  \<open>newIndex\<close> extends to \<open>MaxIndexBytes\<close> and maps into memory; \<open>size\<close> counts the bytes
  written so far. \<open>Read\<close> decodes an entry (\<open>-1\<close> is the last one), \<open>Write\<close> appends
  one, \<open>Close\<close> syncs and truncates the file back to \<open>size\<close>.

  The model keeps the Go types: \<open>size\<close> and positions are \<open>u64\<close>, relative offsets
  \<open>u32\<close>, the argument of \<open>Read\<close> an \<open>int64\<close> bit pattern, and every slice
  expression may panic. The file system is a map from names to bytes; while the index
  is open the file's bytes are those of the shared mapping \<open>mmap\<close>.

  The abstraction \<open>index_entries\<close> reads the written part of the mapping as a list of
  entries; the lemmas show that \<open>Write\<close> appends to that list and \<open>Read\<close> indexes it
  (a functional refinement), that \<open>Write\<close> fails exactly when the mapping is full, and
  that closing and reopening an index gives back its entries.
\<close>

definition offWidth :: u64 where "offWidth = 4"
definition posWidth :: u64 where "posWidth = 8"
definition entWidth :: u64 where "entWidth = offWidth + posWidth"

record index =
  idx_file :: string
  mmap :: "byte list"
  idx_size :: u64

definition newIndex :: "fs \<Rightarrow> string \<Rightarrow> Config \<Rightarrow> index result \<times> fs" where
  "newIndex d f c =
     (case d f of
        None \<Rightarrow> (Inl ENOENT, d)
      | Some bs \<Rightarrow>
          (let sz = (word_of_nat (length bs) :: u64) in
           case os_truncate bs (MaxIndexBytes (Segment c)) of
             Inl e \<Rightarrow> (Inl e, d)
           | Inr bs' \<Rightarrow>
               (case gommap_Map bs' of
                  Inl e \<Rightarrow> (Inl e, d(f \<mapsto> bs'))
                | Inr m \<Rightarrow> (Inr \<lparr>idx_file = f, mmap = m, idx_size = sz\<rparr>, d(f \<mapsto> bs')))))"

text \<open>
  \<open>Close\<close>: \<open>mmap.Sync\<close> and \<open>file.Sync\<close> put the mapped bytes into the file, then the
  file is truncated to \<open>int64(size)\<close>.
\<close>

definition index_Close :: "fs \<Rightarrow> index \<Rightarrow> unit result \<times> fs" where
  "index_Close d i =
     (let d' = d(idx_file i \<mapsto> mmap i) in
      case os_truncate (mmap i) (idx_size i) of
        Inl e \<Rightarrow> (Inl e, d')
      | Inr bs \<Rightarrow> (Inr (), d'(idx_file i \<mapsto> bs)))"

definition index_Read :: "index \<Rightarrow> i64 \<Rightarrow> (u32 \<times> u64) result" where
  "index_Read i inp =
     (if idx_size i = 0 then Inl EOF
      else
        (let out = (if inp = -1 then ucast (idx_size i div entWidth - 1) else ucast inp) :: u32;
             pos = ucast out * entWidth
         in if idx_size i < pos + entWidth then Inl EOF
            else
              (case go_slice (mmap i) pos (pos + offWidth) of
                 Inl e \<Rightarrow> Inl e
               | Inr b1 \<Rightarrow>
                   (case go_slice (mmap i) (pos + offWidth) (pos + entWidth) of
                      Inl e \<Rightarrow> Inl e
                    | Inr b2 \<Rightarrow> Inr (be_Uint32 b1, be_Uint64 b2)))))"

definition index_Write :: "index \<Rightarrow> u32 \<Rightarrow> u64 \<Rightarrow> index result" where
  "index_Write i off pos =
     (if word_of_nat (length (mmap i)) < idx_size i + entWidth then Inl EOF
      else
        (case go_put (mmap i) (idx_size i) (idx_size i + offWidth) (be_PutUint32 off) of
           Inl e \<Rightarrow> Inl e
         | Inr m1 \<Rightarrow>
             (case go_put m1 (idx_size i + offWidth) (idx_size i + entWidth) (be_PutUint64 pos) of
                Inl e \<Rightarrow> Inl e
              | Inr m2 \<Rightarrow> Inr (i\<lparr>mmap := m2, idx_size := idx_size i + entWidth\<rparr>))))"

definition index_Name :: "index \<Rightarrow> string" where
  "index_Name i = idx_file i"

subsection \<open>Abstraction and invariant\<close>

text \<open>Entry \<open>k\<close> of a mapping, and the entries of the written part.\<close>

definition entry_at :: "byte list \<Rightarrow> nat \<Rightarrow> u32 \<times> u64" where
  "entry_at m k = (be_Uint32 (take 4 (drop (12 * k) m)), be_Uint64 (take 8 (drop (12 * k + 4) m)))"

definition index_entries :: "index \<Rightarrow> (u32 \<times> u64) list" where
  "index_entries i = map (entry_at (mmap i)) [0..<unat (idx_size i) div 12]"

text \<open>
  An open index is well formed when the written part lies inside the mapping, is a whole
  number of entries, and the mapping has the length of a file (\<open>int64\<close>).
\<close>

definition index_inv :: "index \<Rightarrow> bool" where
  "index_inv i \<longleftrightarrow>
     unat (idx_size i) \<le> length (mmap i) \<and> unat (idx_size i) mod 12 = 0 \<and> length (mmap i) < 2 ^ 63"

text \<open>
  A crash of the process while the index is open: the kernel keeps the dirty pages of the
  shared mapping, so the file holds the whole mapping, untruncated.
\<close>

definition index_crash :: "fs \<Rightarrow> index \<Rightarrow> fs" where
  "index_crash d i = d(idx_file i \<mapsto> mmap i)"


text \<open>
  Concrete indexes for the witnesses: an empty index over a 24-byte mapping (room for two
  entries), the same index after \<open>Write(5, 7)\<close>, and the configuration that maps 24 bytes.
\<close>

abbreviation idx_cfg24 :: Config where
  "idx_cfg24 \<equiv> \<lparr>Segment = \<lparr>MaxStoreBytes = 1024, MaxIndexBytes = 24, InitialOffset = 0\<rparr>\<rparr>"

abbreviation idx_empty :: index where
  "idx_empty \<equiv> \<lparr>idx_file = ''0.index'', mmap = replicate 24 0, idx_size = 0\<rparr>"

abbreviation idx_one :: index where
  "idx_one \<equiv> \<lparr>idx_file = ''0.index'',
              mmap = overwrite (overwrite (replicate 24 0) 0 (be_PutUint32 5)) 4 (be_PutUint64 7),
              idx_size = 12\<rparr>"

abbreviation idx_full :: index where
  "idx_full \<equiv> \<lparr>idx_file = ''0.index'', mmap = replicate 12 0, idx_size = 12\<rparr>"

abbreviation idx_cfg0 :: Config where
  "idx_cfg0 \<equiv> \<lparr>Segment = \<lparr>MaxStoreBytes = 1024, MaxIndexBytes = 0, InitialOffset = 0\<rparr>\<rparr>"

abbreviation idx_cfg_neg :: Config where
  "idx_cfg_neg \<equiv> \<lparr>Segment = \<lparr>MaxStoreBytes = 1024, MaxIndexBytes = 2 ^ 63, InitialOffset = 0\<rparr>\<rparr>"

subsection \<open>Lemmas: the operations under the invariant\<close>

lemma widths [simp]: "offWidth = 4" "posWidth = 8" "entWidth = 12"
  by (simp_all add: offWidth_def posWidth_def entWidth_def)

lemma index_Write_eq:
  assumes "index_inv i"
  shows "index_Write i off pos =
    (if length (mmap i) < unat (idx_size i) + 12 then Inl EOF
     else Inr (i\<lparr>mmap := overwrite (overwrite (mmap i) (unat (idx_size i)) (be_PutUint32 off))
                              (unat (idx_size i) + 4) (be_PutUint64 pos),
                idx_size := idx_size i + 12\<rparr>))"
proof -
  let ?s = "idx_size i" and ?m = "mmap i"
  from assms have s: "unat ?s \<le> length ?m" "length ?m < 2 ^ 63"
    by (simp_all add: index_inv_def)
  have u4: "unat (?s + 4) = unat ?s + 4" and u12: "unat (?s + 12) = unat ?s + 12"
    using s by (simp_all add: unat_add_no_wrap)
  have ulen: "unat (word_of_nat (length ?m) :: u64) = length ?m"
    using s by (simp add: unat_of_nat_small)
  have cmp: "(word_of_nat (length ?m) < ?s + 12) \<longleftrightarrow> length ?m < unat ?s + 12"
    by (simp add: word_less_nat_alt ulen u12)
  have le4: "?s \<le> ?s + 4" and le12: "?s + 4 \<le> ?s + 12"
    by (simp_all add: word_le_nat_alt u4 u12)
  show ?thesis
  proof (cases "length ?m < unat ?s + 12")
    case True
    then show ?thesis by (simp add: index_Write_def cmp)
  next
    case False
    then show ?thesis
      by (simp add: index_Write_def cmp go_put_def u4 u12 le4 le12)
  qed
qed

lemma unat_entry_pos:
  "unat (ucast (out::u32) * 12 :: u64) = 12 * unat out"
proof -
  have "unat (ucast out :: u64) * unat (12 :: u64) < 2 ^ 64"
    using unat_u32_lt[of out] by simp
  then show ?thesis
    using unat_mult_lem [of "ucast out :: u64" 12] by simp
qed

lemma unat_entry_pos_add:
  "unat (ucast (out::u32) * 12 + 4 :: u64) = 12 * unat out + 4 \<and>
   unat (ucast out * 12 + 12 :: u64) = 12 * unat out + 12"
proof -
  have "12 * unat out + 12 < 2 ^ 64" using unat_u32_lt[of out] by simp
  then show ?thesis using unat_entry_pos [of out] by (simp add: unat_add_no_wrap)
qed

lemma index_Read_out:
  assumes "index_inv i"
  shows "index_Read i inp =
    (if idx_size i = 0 then Inl EOF
     else (let out = (if inp = -1 then ucast (idx_size i div 12 - 1) else ucast inp) :: u32 in
           if unat out < unat (idx_size i) div 12 then Inr (entry_at (mmap i) (unat out))
           else Inl EOF))"
proof -
  let ?s = "idx_size i" and ?m = "mmap i"
  from assms have s: "unat ?s \<le> length ?m" "unat ?s mod 12 = 0" "length ?m < 2 ^ 63"
    by (simp_all add: index_inv_def)
  have main: "(if ?s < ucast out * 12 + 12 then Inl EOF
       else case go_slice ?m (ucast out * 12) (ucast out * 12 + 4) of Inl e \<Rightarrow> Inl e
            | Inr b1 \<Rightarrow> (case go_slice ?m (ucast out * 12 + 4) (ucast out * 12 + 12) of
                          Inl e \<Rightarrow> Inl e | Inr b2 \<Rightarrow> Inr (be_Uint32 b1, be_Uint64 b2)))
     = (if unat out < unat ?s div 12 then Inr (entry_at ?m (unat out)) else Inl EOF)"
    for out :: u32
  proof -
    let ?p = "ucast out * 12 :: u64"
    have p: "unat ?p = 12 * unat out" by (rule unat_entry_pos)
    have p4: "unat (?p + 4) = 12 * unat out + 4" and p12: "unat (?p + 12) = 12 * unat out + 12"
      using unat_entry_pos_add [of out] by simp_all
    have cmp: "?s < ?p + 12 \<longleftrightarrow> \<not> unat out < unat ?s div 12"
      using s(2) by (simp add: word_less_nat_alt p12) linarith
    have le: "?p \<le> ?p + 4" "?p + 4 \<le> ?p + 12"
      by (simp_all add: word_le_nat_alt p p4 p12)
    show ?thesis
    proof (cases "unat out < unat ?s div 12")
      case True
      then have "12 * unat out + 12 \<le> length ?m"
        using s(1,2) by linarith
      with True show ?thesis
        by (simp add: cmp go_slice_def le p p4 p12 entry_at_def)
    next
      case False
      then show ?thesis by (simp add: cmp)
    qed
  qed
  show ?thesis
    unfolding index_Read_def Let_def widths main ..
qed


text \<open>
  Without the invariant: an entry that lies inside \<open>size\<close> but not inside the mapping
  makes one of the two slice expressions of \<open>Read\<close> panic.
\<close>

lemma index_Read_slice_panic:
  assumes nz: "idx_size i \<noteq> 0"
    and out: "out = (if inp = -1 then ucast (idx_size i div 12 - 1) else ucast inp :: u32)"
    and ins: "12 * unat out + 12 \<le> unat (idx_size i)" and outside: "length (mmap i) < 12 * unat out + 12"
  shows "index_Read i inp = Inl SlicePanic"
proof -
  let ?p = "ucast out * 12 :: u64"
  have p: "unat ?p = 12 * unat out" by (rule unat_entry_pos)
  have p4: "unat (?p + 4) = 12 * unat out + 4" and p12: "unat (?p + 12) = 12 * unat out + 12"
    using unat_entry_pos_add [of out] by simp_all
  have nlt: "\<not> idx_size i < ?p + 12" using ins by (simp add: word_less_nat_alt p12)
  have le: "?p \<le> ?p + 4" "?p + 4 \<le> ?p + 12" by (simp_all add: word_le_nat_alt p p4 p12)
  show ?thesis
    unfolding index_Read_def Let_def widths out [symmetric]
  proof (cases "12 * unat out + 4 \<le> length (mmap i)")
    case True
    with outside show "(if idx_size i = 0 then Inl EOF
        else if idx_size i < ?p + 12 then Inl EOF
        else case go_slice (mmap i) ?p (?p + 4) of Inl e \<Rightarrow> Inl e
             | Inr b1 \<Rightarrow> (case go_slice (mmap i) (?p + 4) (?p + 12) of
                          Inl e \<Rightarrow> Inl e | Inr b2 \<Rightarrow> Inr (be_Uint32 b1, be_Uint64 b2))) = Inl SlicePanic"
      using nz nlt le p4 p12 by (simp add: go_slice_def)
  next
    case False
    then show "(if idx_size i = 0 then Inl EOF
        else if idx_size i < ?p + 12 then Inl EOF
        else case go_slice (mmap i) ?p (?p + 4) of Inl e \<Rightarrow> Inl e
             | Inr b1 \<Rightarrow> (case go_slice (mmap i) (?p + 4) (?p + 12) of
                          Inl e \<Rightarrow> Inl e | Inr b2 \<Rightarrow> Inr (be_Uint32 b1, be_Uint64 b2))) = Inl SlicePanic"
      using nz nlt p4 by (simp add: go_slice_def)
  qed
qed

lemma oversized_arith:
  fixes bs :: "byte list"
  assumes M0: "0 < (M::nat)" and over: "M < 12 * (length bs div 12)"
  shows "1 \<le> length bs div 12" "M < length bs" "12 * (length bs div 12 - 1) + 12 \<le> length bs"
proof -
  show "1 \<le> length bs div 12" using M0 over by (cases "length bs div 12") simp_all
  have "12 * (length bs div 12) \<le> length bs" using div_mult_mod_eq [of "length bs" 12] by linarith
  then show "M < length bs" "12 * (length bs div 12 - 1) + 12 \<le> length bs"
    using over by (simp_all add: algebra_simps) 
qed

lemma entry_at_overwrite_before:
  assumes "12 * k + 12 \<le> at" "at + length bs \<le> length m"
  shows "entry_at (overwrite m at bs) k = entry_at m k"
  using assms by (simp add: entry_at_def take_drop_overwrite_before)

lemma entry_at_written:
  assumes "12 * n + 12 \<le> length m"
  shows "entry_at (overwrite (overwrite m (12 * n) (be_PutUint32 off)) (12 * n + 4) (be_PutUint64 pos)) n
         = (off, pos)"
proof -
  let ?m1 = "overwrite m (12 * n) (be_PutUint32 off)"
  have l1: "length ?m1 = length m" using assms by simp
  have "take 4 (drop (12 * n) (overwrite ?m1 (12 * n + 4) (be_PutUint64 pos))) = take 4 (drop (12 * n) ?m1)"
    using assms l1 by (intro take_drop_overwrite_before) simp_all
  also have "\<dots> = be_PutUint32 off"
    using assms drop_take_overwrite [of "12 * n" "be_PutUint32 off" m] by simp
  finally have a: "take 4 (drop (12 * n) (overwrite ?m1 (12 * n + 4) (be_PutUint64 pos))) = be_PutUint32 off" .
  have b: "take 8 (drop (12 * n + 4) (overwrite ?m1 (12 * n + 4) (be_PutUint64 pos))) = be_PutUint64 pos"
    using assms l1 drop_take_overwrite [of "12 * n + 4" "be_PutUint64 pos" ?m1] by simp
  show ?thesis by (simp add: entry_at_def a b)
qed

lemma index_Write_Inr:
  assumes inv: "index_inv i" and w: "index_Write i off pos = Inr i'"
  shows "index_inv i' \<and> index_entries i' = index_entries i @ [(off, pos)]"
proof -
  let ?s = "idx_size i" and ?m = "mmap i"
  from inv have s: "unat ?s \<le> length ?m" "unat ?s mod 12 = 0" "length ?m < 2 ^ 63"
    by (simp_all add: index_inv_def)
  from w inv have fit: "unat ?s + 12 \<le> length ?m"
    by (simp add: index_Write_eq split: if_splits)
  define n where "n = unat ?s div 12"
  have sn: "unat ?s = 12 * n" using s(2) unfolding n_def by presburger
  from w inv fit have i': "i' = i\<lparr>mmap := overwrite (overwrite ?m (12 * n) (be_PutUint32 off)) (12 * n + 4) (be_PutUint64 pos),
                idx_size := ?s + 12\<rparr>"
    by (simp add: index_Write_eq sn)
  have u12: "unat (?s + 12) = 12 * n + 12"
    using s sn by (simp add: unat_add_no_wrap)
  have len: "length (mmap i') = length ?m"
    using fit sn by (simp add: i')
  have inv': "index_inv i'"
    using s fit len u12 sn by (simp add: index_inv_def i')
  have old: "entry_at (mmap i') k = entry_at ?m k" if "k < n" for k
  proof -
    have "12 * k + 12 \<le> 12 * n" using that by simp
    then show ?thesis
      using fit sn by (simp add: i' entry_at_overwrite_before)
  qed
  have new: "entry_at (mmap i') n = (off, pos)"
    using fit sn by (simp add: i' entry_at_written)
  have "index_entries i' = map (entry_at (mmap i')) [0..<n] @ [entry_at (mmap i') n]"
    by (simp add: index_entries_def i' u12)
  also have "\<dots> = index_entries i @ [(off, pos)]"
    by (simp add: index_entries_def n_def[symmetric] old new)
  finally show ?thesis using inv' by simp
qed


lemma length_index_entries [simp]: "length (index_entries i) = unat (idx_size i) div 12"
  by (simp add: index_entries_def)

lemma nth_index_entries [simp]:
  "k < unat (idx_size i) div 12 \<Longrightarrow> index_entries i ! k = entry_at (mmap i) k"
  by (simp add: index_entries_def)

lemma index_Read_of_nat:
  assumes "index_inv i" "k < 2 ^ 32"
  shows "index_Read i (word_of_nat k) =
    (if k < length (index_entries i) then Inr (index_entries i ! k) else Inl EOF)"
proof -
  have k64: "unat (word_of_nat k :: u64) = k" using assms(2) by (simp add: unat_of_nat_small)
  have ne: "(word_of_nat k :: u64) \<noteq> -1"
    using k64 assms(2) by (intro neq_minus_one_u64) simp
  have k32: "unat (ucast (word_of_nat k :: u64) :: u32) = k"
    using assms(2) k64 by (simp add: unat_ucast_u64_u32)
  have z: "idx_size i = 0 \<Longrightarrow> unat (idx_size i) div 12 = 0" by simp
  show ?thesis
    using assms(1) z by (simp add: index_Read_out ne k32 Let_def)
qed

lemma index_Read_last:
  assumes "index_inv i" "index_entries i \<noteq> []" "length (index_entries i) \<le> 2 ^ 32"
  shows "index_Read i (-1) = Inr (last (index_entries i))"
proof -
  let ?s = "idx_size i"
  define n where "n = unat ?s div 12"
  have "0 < length (index_entries i)" using assms(2) by (metis length_greater_0_conv)
  then have n: "0 < n" "n \<le> 2 ^ 32" using assms(3) by (simp_all add: n_def)
  have s0: "?s \<noteq> 0" using n by (auto simp: n_def)
  have d: "unat (?s div 12) = n" by (simp add: n_def unat_div)
  have d1: "unat (?s div 12 - 1) = n - 1"
    using n d by (simp add: unat_sub word_le_nat_alt)
  have o: "unat (ucast (?s div 12 - 1) :: u32) = n - 1"
    using d1 n by (simp add: unat_ucast_u64_u32)
  have l: "last (index_entries i) = entry_at (mmap i) (n - 1)"
    using assms(2) n by (simp add: last_conv_nth n_def)
  show ?thesis
    using assms(1) n s0 by (simp add: index_Read_out o l n_def[symmetric])
qed


lemma entry_at_append: "12 * k + 12 \<le> length xs \<Longrightarrow> entry_at (xs @ ys) k = entry_at xs k"
  by (simp add: entry_at_def)

lemma entry_at_take: "12 * k + 12 \<le> n \<Longrightarrow> entry_at (take n m) k = entry_at m k"
  by (simp add: entry_at_def take_drop min_def)

lemma index_entries_take_size:
  assumes "index_inv i"
  shows "map (entry_at (take (unat (idx_size i)) (mmap i))) [0..<unat (idx_size i) div 12] = index_entries i"
proof -
  have "entry_at (take (unat (idx_size i)) (mmap i)) k = entry_at (mmap i) k"
    if "k < unat (idx_size i) div 12" for k
  proof -
    have "12 * k + 12 \<le> unat (idx_size i)" using that by linarith
    then show ?thesis by (rule entry_at_take)
  qed
  then show ?thesis by (simp add: index_entries_def)
qed

lemma newIndex_eq:
  assumes "d f = Some bs" "0 < unat (MaxIndexBytes (Segment c))"
    "unat (MaxIndexBytes (Segment c)) < 2 ^ 63"
  shows "newIndex d f c =
    (let bs' = take (unat (MaxIndexBytes (Segment c))) bs
               @ replicate (unat (MaxIndexBytes (Segment c)) - length bs) 0
     in (Inr \<lparr>idx_file = f, mmap = bs', idx_size = word_of_nat (length bs)\<rparr>, d(f \<mapsto> bs')))"
proof -
  let ?mx = "unat (MaxIndexBytes (Segment c))"
  have sm: "sint (MaxIndexBytes (Segment c)) = int ?mx"
    using assms(3) by (rule sint_u64_small)
  have ne: "take ?mx bs @ replicate (?mx - length bs) 0 \<noteq> []"
    using assms(2) by (cases bs) auto
  show ?thesis
    using ne by (simp add: newIndex_def assms(1) os_truncate_def sm gommap_Map_def Let_def)
qed

lemma newIndex_inv:
  assumes "d f = Some bs" "length bs \<le> unat (MaxIndexBytes (Segment c))" "length bs mod 12 = 0"
    "0 < unat (MaxIndexBytes (Segment c))" "unat (MaxIndexBytes (Segment c)) < 2 ^ 63"
  shows "\<exists>i d'. newIndex d f c = (Inr i, d') \<and> idx_file i = f \<and> index_inv i \<and>
           index_entries i = map (entry_at bs) [0..<length bs div 12]"
proof -
  let ?mx = "unat (MaxIndexBytes (Segment c))"
  let ?m = "take ?mx bs @ replicate (?mx - length bs) 0"
  let ?i = "\<lparr>idx_file = f, mmap = ?m, idx_size = word_of_nat (length bs) :: u64\<rparr>"
  have sz: "unat (word_of_nat (length bs) :: u64) = length bs"
    using assms(2,5) by (simp add: unat_of_nat_small)
  have m: "?m = bs @ replicate (?mx - length bs) 0"
    using assms(2) by simp
  have inv: "index_inv ?i"
    using assms(2,3,5) by (simp add: index_inv_def sz)
  have "index_entries ?i = map (entry_at bs) [0..<length bs div 12]"
  proof -
    have "entry_at ?m k = entry_at bs k" if "k < length bs div 12" for k
    proof -
      have "12 * k + 12 \<le> length bs" using that by linarith
      then show ?thesis by (simp only: m entry_at_append)
    qed
    then show ?thesis by (simp add: index_entries_def sz)
  qed
  with inv show ?thesis
    using newIndex_eq [of d f bs c, OF assms(1,4,5)] by (simp add: Let_def)
qed

lemma index_Close_eq:
  assumes "index_inv i"
  shows "index_Close d i = (Inr (), d(idx_file i \<mapsto> take (unat (idx_size i)) (mmap i)))"
proof -
  from assms have s: "unat (idx_size i) \<le> length (mmap i)" "length (mmap i) < 2 ^ 63"
    by (simp_all add: index_inv_def)
  then have "sint (idx_size i) = int (unat (idx_size i))"
    by (intro sint_u64_small) simp
  with s show ?thesis
    by (simp add: index_Close_def os_truncate_def Let_def)
qed

lemma index_Read_alias: "inp \<noteq> -1 \<Longrightarrow> index_Read i inp = index_Read i (ucast (ucast inp :: u32))"
proof -
  have "unat (ucast (ucast inp :: u32) :: u64) < 2 ^ 64 - 1"
    using unat_u32_lt [of "ucast inp"] by simp
  then have ne: "(ucast (ucast inp :: u32) :: u64) \<noteq> -1"
    by (rule neq_minus_one_u64)
  assume "inp \<noteq> -1"
  then show ?thesis
    by (simp add: index_Read_def ne)
qed

lemma index_crash_reopen:
  assumes "index_inv i" "length (mmap i) = unat (MaxIndexBytes (Segment c))" "0 < length (mmap i)"
  shows "newIndex (index_crash d i) (idx_file i) c
       = (Inr (i\<lparr>idx_size := word_of_nat (length (mmap i))\<rparr>), index_crash d i)"
proof -
  from assms(1) have "length (mmap i) < 2 ^ 63" by (simp add: index_inv_def)
  then show ?thesis
    using newIndex_eq [of "index_crash d i" "idx_file i" "mmap i" c] assms(2,3)
    by (simp add: index_crash_def Let_def)
qed


lemma idx_empty_inv: "index_inv idx_empty"
  by (simp add: index_inv_def)

lemma idx_empty_write: "index_Write idx_empty 5 7 = Inr idx_one"
  using idx_empty_inv by (simp add: index_Write_eq)

lemma idx_one_inv: "index_inv idx_one"
  by (simp add: index_inv_def overwrite_def)

lemma idx_empty_entries: "index_entries idx_empty = []"
  by (simp add: index_entries_def)

lemma idx_one_entries: "index_entries idx_one = [(5, 7)]"
  by (simp add: index_entries_def entry_at_written [where n = 0 and m = "replicate 24 0", simplified])

subsection \<open>Properties of the index\<close>

text \<open>
  C1. \<open>Write\<close> refines appending to the list of entries: on a well-formed index a
  successful \<open>Write(off, pos)\<close> keeps the index well formed, and its entries become the
  old entries followed by \<open>(off, pos)\<close>; no earlier entry is rewritten.
\<close>

theorem index_write_refines:
  assumes "index_inv i" and "index_Write i off pos = Inr i'"
  shows "index_inv i' \<and> index_entries i' = index_entries i @ [(off, pos)]"
  using index_Write_Inr [OF assms] .

theorem index_write_refines_witness:
  "index_inv idx_empty \<and> index_Write idx_empty 5 7 = Inr idx_one \<and>
   index_inv idx_one \<and> index_entries idx_one = index_entries idx_empty @ [(5, 7)]"
  using index_write_refines [OF idx_empty_inv idx_empty_write] idx_empty_inv idx_empty_write
  by simp

text \<open>
  C2. \<open>Read\<close> refines indexing the list of entries: on a well-formed index, reading entry
  \<open>k < 2^32\<close> returns the \<open>k\<close>-th entry when it has been written and \<open>io.EOF\<close>
  otherwise (in particular on an empty index).
\<close>

theorem index_read_refines:
  assumes "index_inv i" and "k < 2 ^ 32"
  shows "index_Read i (word_of_nat k) =
           (if k < length (index_entries i) then Inr (index_entries i ! k) else Inl EOF)"
  using index_Read_of_nat [OF assms] .

theorem index_read_refines_witness:
  "index_Read idx_one 0 = Inr (5, 7) \<and> index_Read idx_one 1 = Inl EOF"
  using index_read_refines [OF idx_one_inv, of 0] index_read_refines [OF idx_one_inv, of 1]
  by (simp add: idx_one_entries)

text \<open>
  C3. Round trip: after a successful \<open>Write(off, pos)\<close> on a well-formed index with
  fewer than \<open>2^32\<close> entries, reading the new entry's number and reading the sentinel
  \<open>-1\<close> both return \<open>(off, pos)\<close>, and every earlier entry reads as before.
\<close>

theorem index_write_read_roundtrip:
  assumes inv: "index_inv i" and w: "index_Write i off pos = Inr i'"
    and n: "length (index_entries i) < 2 ^ 32"
  shows "index_Read i' (word_of_nat (length (index_entries i))) = Inr (off, pos) \<and>
         index_Read i' (-1) = Inr (off, pos) \<and>
         (\<forall>k < length (index_entries i).
            index_Read i' (word_of_nat k) = index_Read i (word_of_nat k))"
proof -
  from index_Write_Inr [OF inv w]
  have inv': "index_inv i'" and e: "index_entries i' = index_entries i @ [(off, pos)]"
    by simp_all
  have new: "index_Read i' (word_of_nat (length (index_entries i))) = Inr (off, pos)"
    using index_Read_of_nat [OF inv' n] by (simp add: e del: length_index_entries)
  have last: "index_Read i' (-1) = Inr (off, pos)"
    using index_Read_last [OF inv'] n by (simp add: e)
  have old: "index_Read i' (word_of_nat k) = index_Read i (word_of_nat k)"
    if "k < length (index_entries i)" for k
  proof -
    have "k < 2 ^ 32" using that n by simp
    then show ?thesis
      using that index_Read_of_nat [OF inv', of k] index_Read_of_nat [OF inv, of k]
      by (simp add: e nth_append del: length_index_entries)
  qed
  from new last old show ?thesis by blast
qed

theorem index_write_read_roundtrip_witness:
  "index_Read idx_one 0 = Inr (5, 7) \<and> index_Read idx_one (-1) = Inr (5, 7)"
  using index_write_read_roundtrip [OF idx_empty_inv idx_empty_write]
  by (simp add: index_entries_def)


text \<open>
  C4. \<open>Write\<close> fails only when the mapping is full: on a well-formed index its only
  possible error is \<open>io.EOF\<close>, returned exactly when fewer than \<open>entWidth\<close> bytes of
  the mapping are left; it never panics.
\<close>

theorem index_write_fails_only_when_full:
  assumes "index_inv i"
  shows "index_Write i off pos = Inl e \<longleftrightarrow>
           e = EOF \<and> length (mmap i) < unat (idx_size i) + unat entWidth"
  using assms by (auto simp: index_Write_eq)

theorem index_write_fails_only_when_full_witness:
  "index_Write idx_full 5 7 = Inl EOF \<and> (\<forall>e. index_Write idx_one 1 2 = Inl e \<longleftrightarrow> False)"
proof -
  have f: "index_inv idx_full" by (simp add: index_inv_def)
  show ?thesis
    using index_write_fails_only_when_full [OF f, of 5 7 EOF]
      index_write_fails_only_when_full [OF idx_one_inv, of 1 2]
    by (simp add: overwrite_def)
qed

text \<open>
  C5. The sentinel: on a well-formed index with at most \<open>2^32\<close> entries,
  \<open>Read(-1)\<close> returns the last entry, and \<open>io.EOF\<close> when the index is empty.
\<close>

theorem index_read_sentinel:
  assumes "index_inv i" and "length (index_entries i) \<le> 2 ^ 32"
  shows "index_Read i (-1) =
           (if index_entries i = [] then Inl EOF else Inr (last (index_entries i)))"
proof (cases "index_entries i = []")
  case True
  then have "unat (idx_size i) < 12" by (simp add: index_entries_def)
  with assms(1) have "idx_size i = 0"
    by (simp add: index_inv_def) (metis unat_0_iff mod_less neq0_conv)
  with True show ?thesis by (simp add: index_Read_def)
next
  case False
  with index_Read_last [OF assms(1) False assms(2)] show ?thesis by simp
qed

theorem index_read_sentinel_witness:
  "index_Read idx_one (-1) = Inr (5, 7) \<and> index_Read idx_empty (-1) = Inl EOF"
  using index_read_sentinel [OF idx_one_inv] index_read_sentinel [OF idx_empty_inv]
  by (simp add: idx_one_entries idx_empty_entries)

text \<open>
  C6. Close and reopen: closing a well-formed index succeeds and truncates its file to
  the written entries; reopening that file with any \<open>MaxIndexBytes\<close> that holds them
  (and that \<open>mmap\<close> accepts) gives a well-formed index with the same entries.
\<close>

theorem index_close_reopen:
  assumes inv: "index_inv i"
    and le: "unat (idx_size i) \<le> unat (MaxIndexBytes (Segment c))"
    and pos: "0 < unat (MaxIndexBytes (Segment c))"
    and small: "unat (MaxIndexBytes (Segment c)) < 2 ^ 63"
  shows "fst (index_Close d i) = Inr () \<and>
         (\<exists>i' d'. newIndex (snd (index_Close d i)) (idx_file i) c = (Inr i', d') \<and>
                  index_inv i' \<and> index_entries i' = index_entries i)"
proof -
  let ?bs = "take (unat (idx_size i)) (mmap i)"
  from inv have s: "unat (idx_size i) \<le> length (mmap i)" "unat (idx_size i) mod 12 = 0"
    by (simp_all add: index_inv_def)
  have c: "index_Close d i = (Inr (), d(idx_file i \<mapsto> ?bs))"
    by (rule index_Close_eq [OF inv])
  have lb: "length ?bs = unat (idx_size i)" using s by simp
  obtain i' d' where o: "newIndex (d(idx_file i \<mapsto> ?bs)) (idx_file i) c = (Inr i', d')"
      and inv': "index_inv i'"
      and e: "index_entries i' = map (entry_at ?bs) [0..<length ?bs div 12]"
    using newIndex_inv [of "d(idx_file i \<mapsto> ?bs)" "idx_file i" ?bs c] le pos small s lb
    by auto
  have "index_entries i' = index_entries i"
    using e index_entries_take_size [OF inv] by (simp only: lb)
  with c o inv' show ?thesis by simp
qed

theorem index_close_reopen_witness:
  "fst (index_Close Map.empty idx_one) = Inr () \<and>
   (\<exists>i' d'. newIndex (snd (index_Close Map.empty idx_one)) ''0.index'' idx_cfg24 = (Inr i', d') \<and>
            index_inv i' \<and> index_entries i' = [(5, 7)])"
  using index_close_reopen [OF idx_one_inv, of idx_cfg24 Map.empty]
  by (simp add: idx_one_entries)

text \<open>
  C7. Opening an empty file pre-allocates: \<open>newIndex\<close> extends the file to
  \<open>MaxIndexBytes\<close> zero bytes, maps all of it, and starts with size 0.
\<close>

theorem newIndex_preallocates:
  assumes "d f = Some []" and "0 < unat (MaxIndexBytes (Segment c))"
    and "unat (MaxIndexBytes (Segment c)) < 2 ^ 63"
  shows "newIndex d f c =
           (Inr \<lparr>idx_file = f, mmap = replicate (unat (MaxIndexBytes (Segment c))) 0, idx_size = 0\<rparr>,
            d(f \<mapsto> replicate (unat (MaxIndexBytes (Segment c))) 0))"
  using newIndex_eq [of d f "[]" c, OF assms] by (simp add: Let_def)

theorem newIndex_preallocates_witness:
  "newIndex [''0.index'' \<mapsto> []] ''0.index'' idx_cfg24 = (Inr idx_empty, [''0.index'' \<mapsto> replicate 24 0])"
  using newIndex_preallocates [of "[''0.index'' \<mapsto> []]" "''0.index''" idx_cfg24] by simp

text \<open>
  C8. The error branches of \<open>newIndex\<close>: a missing file is \<open>ENOENT\<close> (from
  \<open>os.Stat\<close>) with the file system unchanged; a \<open>MaxIndexBytes\<close> that is negative as
  \<open>int64\<close> is \<open>EINVAL\<close> from the truncate, file unchanged; a \<open>MaxIndexBytes\<close> of 0
  is \<open>EINVAL\<close> from \<open>mmap\<close>, after the file has been truncated to nothing.
\<close>

theorem newIndex_error_branches:
  "(d f = None \<longrightarrow> newIndex d f c = (Inl ENOENT, d)) \<and>
   (d f \<noteq> None \<and> sint (MaxIndexBytes (Segment c)) < 0 \<longrightarrow> newIndex d f c = (Inl EINVAL, d)) \<and>
   (d f = Some bs \<and> MaxIndexBytes (Segment c) = 0 \<longrightarrow> newIndex d f c = (Inl EINVAL, d(f \<mapsto> [])))"
  by (auto simp: newIndex_def os_truncate_def gommap_Map_def)

theorem newIndex_error_branches_witness:
  "newIndex Map.empty ''0.index'' idx_cfg24 = (Inl ENOENT, Map.empty) \<and>
   newIndex [''0.index'' \<mapsto> []] ''0.index'' idx_cfg_neg = (Inl EINVAL, [''0.index'' \<mapsto> []]) \<and>
   newIndex [''0.index'' \<mapsto> [1]] ''0.index'' idx_cfg0 = (Inl EINVAL, [''0.index'' \<mapsto> []])"
proof -
  have n: "sint (2 ^ 63 :: u64) < 0" by simp
  show ?thesis
    using newIndex_error_branches [of Map.empty "''0.index''" idx_cfg24]
      newIndex_error_branches [of "[''0.index'' \<mapsto> []]" "''0.index''" idx_cfg_neg]
      newIndex_error_branches [of "[''0.index'' \<mapsto> [1]]" "''0.index''" idx_cfg0 "[1]"] n
    by simp
qed

text \<open>
  C9. \<open>Read\<close> keeps only the low 32 bits of its argument: for every argument
  other than the sentinel, \<open>Read(in)\<close> is \<open>Read(uint32(in))\<close>; so \<open>Read(2^32)\<close> on
  an index with one entry returns that entry instead of \<open>io.EOF\<close>.
\<close>

theorem index_read_aliases_low_32_bits:
  "inp \<noteq> -1 \<Longrightarrow> index_Read i inp = index_Read i (ucast (ucast inp :: u32))"
  by (rule index_Read_alias)

theorem index_read_aliases_low_32_bits_witness:
  "(2 ^ 32 :: i64) \<noteq> -1 \<and> index_Read idx_one (2 ^ 32) = Inr (5, 7)"
proof -
  have ne: "(2 ^ 32 :: i64) \<noteq> -1" by simp
  have "index_Read idx_one 0 = Inr (5, 7)"
    using index_Read_of_nat [OF idx_one_inv, of 0] by (simp add: idx_one_entries)
  then show ?thesis
    using index_read_aliases_low_32_bits [OF ne, of idx_one] ne by simp
qed

text \<open>
  C10. A crash before \<open>Close\<close> leaves the file at its mapped length: reopening the
  file of a crashed index (with the \<open>MaxIndexBytes\<close> it was opened with) gives an
  index whose size is the whole mapping, so it counts \<open>MaxIndexBytes / 12\<close> entries
  whatever number was written.
\<close>

theorem index_crash_reopen_miscounts:
  assumes "index_inv i" and "length (mmap i) = unat (MaxIndexBytes (Segment c))"
    and "0 < length (mmap i)"
  shows "\<exists>i'. fst (newIndex (index_crash d i) (idx_file i) c) = Inr i' \<and> mmap i' = mmap i \<and>
              length (index_entries i') = length (mmap i) div 12"
proof -
  from assms(1) have "length (mmap i) < 2 ^ 63" by (simp add: index_inv_def)
  then have "unat (word_of_nat (length (mmap i)) :: u64) = length (mmap i)"
    by (simp add: unat_of_nat_small)
  then show ?thesis
    using index_crash_reopen [OF assms] by simp
qed

theorem index_crash_reopen_miscounts_witness:
  "length (index_entries idx_one) = 1 \<and>
   (\<exists>i'. fst (newIndex (index_crash Map.empty idx_one) ''0.index'' idx_cfg24) = Inr i' \<and>
         length (index_entries i') = 2)"
  using index_crash_reopen_miscounts [OF idx_one_inv, of idx_cfg24 Map.empty]
  by (auto simp: idx_one_entries overwrite_def)

text \<open>
  C11. An index file longer than \<open>MaxIndexBytes\<close> is not handled: \<open>newIndex\<close>
  truncates it to \<open>MaxIndexBytes\<close> but keeps as \<open>size\<close> the length read before the
  truncate. Whenever the file's last whole entry lies past \<open>MaxIndexBytes\<close>, the
  sentinel read \<open>Read(-1)\<close> on the opened index slices past the mapping and panics.
\<close>

theorem index_oversized_file_read_panics:
  assumes f: "d f = Some bs" and M0: "0 < unat (MaxIndexBytes (Segment c))"
    and over: "unat (MaxIndexBytes (Segment c)) < 12 * (length bs div 12)"
    and small: "length bs < 2 ^ 63" and n32: "length bs div 12 \<le> 2 ^ 32"
  shows "\<exists>i. fst (newIndex d f c) = Inr i \<and> idx_size i = word_of_nat (length bs) \<and>
             length (mmap i) = unat (MaxIndexBytes (Segment c)) \<and> index_Read i (-1) = Inl SlicePanic"
proof -
  let ?M = "unat (MaxIndexBytes (Segment c))" and ?L = "length bs"
  let ?i = "\<lparr>idx_file = f, mmap = take ?M bs @ replicate (?M - ?L) 0, idx_size = word_of_nat ?L :: u64\<rparr>"
  define n where "n = ?L div 12"
  have n1: "1 \<le> n" and Mlt: "?M < ?L" and ins: "12 * (n - 1) + 12 \<le> ?L"
    using oversized_arith [OF M0 over] by (simp_all add: n_def)
  have Ms: "?M < 2 ^ 63" using Mlt small by simp
  have ni: "fst (newIndex d f c) = Inr ?i"
    using newIndex_eq [of d f bs c, OF f M0 Ms] by (simp add: Let_def)
  have uL: "unat (word_of_nat ?L :: u64) = ?L" using small by (simp add: unat_of_nat_small)
  have d: "unat ((word_of_nat ?L :: u64) div 12) = n" by (simp add: unat_div uL n_def)
  have d1: "unat ((word_of_nat ?L :: u64) div 12 - 1) = n - 1"
    using n1 d by (simp add: unat_sub word_le_nat_alt)
  have o: "unat (ucast ((word_of_nat ?L :: u64) div 12 - 1) :: u32) = n - 1"
    using d1 n1 n32 by (simp add: unat_ucast_u64_u32 n_def)
  have nz: "(word_of_nat ?L :: u64) \<noteq> 0" using Mlt uL by (metis not_less0 unat_0)
  have outside: "length (take ?M bs @ replicate (?M - ?L) 0) < 12 * (n - 1) + 12"
    using over Mlt n1 by (simp add: n_def)
  let ?out = "ucast ((word_of_nat ?L :: u64) div 12 - 1) :: u32"
  have ins': "12 * unat ?out + 12 \<le> unat (idx_size ?i)" using o ins uL by simp
  have out': "length (mmap ?i) < 12 * unat ?out + 12" using o outside by simp
  have "index_Read ?i (-1) = Inl SlicePanic"
    using index_Read_slice_panic [of ?i ?out "-1"] nz ins' out' by simp
  moreover have "length (mmap ?i) = ?M" using Mlt by simp
  ultimately show ?thesis using ni by simp
qed

theorem index_oversized_file_read_panics_witness:
  "[''0.index'' \<mapsto> replicate 24 0] ''0.index'' = Some (replicate 24 0) \<and>
   (\<exists>i. fst (newIndex [''0.index'' \<mapsto> replicate 24 0] ''0.index''
                 \<lparr>Segment = \<lparr>MaxStoreBytes = 1024, MaxIndexBytes = 12, InitialOffset = 0\<rparr>\<rparr>) = Inr i \<and>
        idx_size i = 24 \<and> length (mmap i) = 12 \<and> index_Read i (-1) = Inl SlicePanic)"
  using index_oversized_file_read_panics [of "[''0.index'' \<mapsto> replicate 24 0]" "''0.index''"
      "replicate 24 0" "\<lparr>Segment = \<lparr>MaxStoreBytes = 1024, MaxIndexBytes = 12, InitialOffset = 0\<rparr>\<rparr>"]
  by simp

end
