(* ===== verification/Store.thy ===== *)
theory Store
  imports Enc
begin

text \<open>
  The store: an append-only file of length-prefixed records (specification 4.2 and 6:
  an 8-byte big-endian length, then the payload). Writes go to a buffer that is flushed
  before every read and on close, so a read never observes a header without its
  payload. The store's file is \<open>st_file\<close>, its buffered bytes \<open>st_buf\<close>, and \<open>st_size\<close>
  the size of both together, which is where the next record begins.
\<close>

definition lenWidth :: u64 where
  "lenWidth = 8"

record store =
  st_name :: string
  st_file :: "byte list"
  st_buf :: "byte list"
  st_size :: u64

text \<open>Opening creates a missing file; the size is the file's size.\<close>

definition newStore :: "fs \<Rightarrow> string \<Rightarrow> store \<times> fs" where
  "newStore d f =
     (let bs = (case d f of None \<Rightarrow> [] | Some bs \<Rightarrow> bs)
      in (\<lparr>st_name = f, st_file = bs, st_buf = [], st_size = word_of_nat (length bs)\<rparr>, d(f \<mapsto> bs)))"

text \<open>\<open>Append(p)\<close> returns the bytes written and the position of the record's header.\<close>

definition store_Append :: "store \<Rightarrow> byte list \<Rightarrow> (u64 \<times> u64) \<times> store" where
  "store_Append s p =
     (let pos = st_size s;
          w = word_of_nat (length p) + lenWidth
      in ((w, pos),
          s\<lparr>st_buf := st_buf s @ be_PutUint64 (word_of_nat (length p)) @ p,
            st_size := st_size s + w\<rparr>))"

definition store_flush :: "store \<Rightarrow> store" where
  "store_flush s = s\<lparr>st_file := st_file s @ st_buf s, st_buf := []\<rparr>"

text \<open>\<open>Read(pos)\<close>: flush, read the header at \<open>pos\<close>, then that many bytes after it.\<close>

definition store_Read :: "store \<Rightarrow> u64 \<Rightarrow> byte list result \<times> store" where
  "store_Read s pos =
     (let s' = store_flush s in
      case read_at (st_file s') pos (unat lenWidth) of
        Inl e \<Rightarrow> (Inl e, s')
      | Inr hdr \<Rightarrow>
          (case read_at (st_file s') (pos + lenWidth) (unat (be_Uint64 hdr)) of
             Inl e \<Rightarrow> (Inl e, s')
           | Inr b \<Rightarrow> (Inr b, s')))"

text \<open>\<open>Close\<close>: flush and write the file back.\<close>

definition store_Close :: "fs \<Rightarrow> store \<Rightarrow> fs" where
  "store_Close d s = d(st_name s \<mapsto> st_file (store_flush s))"

subsection \<open>Abstraction and invariant\<close>

text \<open>The bytes of one record, of a list of records, and where record \<open>k\<close> begins.\<close>

definition store_enc :: "byte list \<Rightarrow> byte list" where
  "store_enc p = be_PutUint64 (word_of_nat (length p)) @ p"

definition store_image :: "byte list list \<Rightarrow> byte list" where
  "store_image rs = concat (map store_enc rs)"

definition store_pos :: "byte list list \<Rightarrow> nat \<Rightarrow> nat" where
  "store_pos rs k = length (store_image (take k rs))"

text \<open>
  The store holds the records \<open>rs\<close>: its file and buffer are their encodings, its size
  their length, below \<open>2^63\<close> bytes (so every position converts to \<open>int64\<close>).
\<close>

definition store_inv :: "store \<Rightarrow> byte list list \<Rightarrow> bool" where
  "store_inv s rs \<longleftrightarrow>
     st_file s @ st_buf s = store_image rs \<and> unat (st_size s) = length (store_image rs) \<and>
     length (store_image rs) < 2 ^ 63"

subsection \<open>Lemmas\<close>

lemma length_store_enc [simp]: "length (store_enc p) = length p + 8"
  by (simp add: store_enc_def)

lemma store_image_snoc [simp]: "store_image (rs @ [p]) = store_image rs @ store_enc p"
  by (simp add: store_image_def)

lemma store_image_split:
  "k < length rs \<Longrightarrow>
   store_image rs = store_image (take k rs) @ store_enc (rs ! k) @ store_image (drop (Suc k) rs)"
proof -
  assume k: "k < length rs"
  have "store_image (take k rs @ rs ! k # drop (Suc k) rs) =
        store_image (take k rs) @ store_enc (rs ! k) @ store_image (drop (Suc k) rs)"
    by (simp add: store_image_def)
  then show ?thesis by (simp only: id_take_nth_drop [OF k, symmetric])
qed

lemma store_flush_image [simp]: "st_file (store_flush s) = st_file s @ st_buf s"
  by (simp add: store_flush_def)

lemma store_inv_flush [simp]: "store_inv (store_flush s) rs \<longleftrightarrow> store_inv s rs"
  by (simp add: store_inv_def store_flush_def)

lemma store_Append_eq:
  assumes "store_inv s rs" and "length (store_image rs) + length p + 8 < 2 ^ 63"
  shows "store_Append s p =
           ((word_of_nat (length p + 8), word_of_nat (length (store_image rs))),
            s\<lparr>st_buf := st_buf s @ store_enc p, st_size := word_of_nat (length (store_image rs @ store_enc p))\<rparr>)"
proof -
  have "st_size s = word_of_nat (unat (st_size s))" by simp
  also have "\<dots> = word_of_nat (length (store_image rs))" using assms(1) by (simp add: store_inv_def)
  finally show ?thesis by (simp add: store_Append_def store_enc_def lenWidth_def Let_def)
qed

lemma store_Append_inv:
  assumes "store_inv s rs" and "length (store_image rs) + length p + 8 < 2 ^ 63"
  shows "store_inv (snd (store_Append s p)) (rs @ [p])"
proof -
  let ?n = "length (store_image rs) + (length p + 8)"
  have "unat (word_of_nat ?n :: u64) = ?n" by (rule unat_of_nat_small) (use assms(2) in simp)
  then have "unat (word_of_nat (length (store_image rs)) + (word_of_nat (length p) + 8) :: u64) = ?n"
    by simp
  with assms show ?thesis by (simp add: store_Append_eq [OF assms] store_inv_def)
qed

lemma read_at_of_nat:
  assumes "off + n \<le> length d" and "length d < 2 ^ 63"
  shows "read_at d (word_of_nat off) n = Inr (take n (drop off d))"
  using assms by (simp add: read_at_def sint_of_nat_small)

lemma read_at_past_end:
  assumes "length d \<le> off" and "off < 2 ^ 63" and "0 < n"
  shows "read_at d (word_of_nat off) n = Inl EOF"
  using assms by (simp add: read_at_def sint_of_nat_small)

lemma store_Read_nth:
  assumes inv: "store_inv s rs" and k: "k < length rs"
  shows "store_Read s (word_of_nat (store_pos rs k)) = (Inr (rs ! k), store_flush s)"
proof -
  let ?img = "store_image rs" and ?P = "store_pos rs k" and ?p = "rs ! k"
  have split: "?img = store_image (take k rs) @ store_enc ?p @ store_image (drop (Suc k) rs)"
    using k by (rule store_image_split)
  have f: "st_file (store_flush s) = ?img" and small: "length ?img < 2 ^ 63"
    using inv by (simp_all add: store_inv_def)
  have len: "?P + 8 + length ?p \<le> length ?img"
    by (subst split) (simp add: store_pos_def)
  have hdr: "take 8 (drop ?P ?img) = be_PutUint64 (word_of_nat (length ?p))"
    by (subst split) (simp add: store_pos_def store_enc_def)
  have body: "take (length ?p) (drop (?P + 8) ?img) = ?p"
    by (subst split) (simp add: store_pos_def store_enc_def)
  have r1: "read_at ?img (word_of_nat ?P) 8 = Inr (be_PutUint64 (word_of_nat (length ?p)))"
    using read_at_of_nat [of ?P 8 ?img] len small hdr by simp
  have "unat (word_of_nat (length ?p) :: u64) = length ?p"
    using len small by (simp add: unat_of_nat_small)
  moreover have "(word_of_nat ?P :: u64) + lenWidth = word_of_nat (?P + 8)"
    by (simp add: lenWidth_def)
  moreover have "read_at ?img (word_of_nat (?P + 8)) (length ?p) = Inr ?p"
    using read_at_of_nat [of "?P + 8" "length ?p" ?img] len small body by simp
  ultimately show ?thesis using r1 f by (simp add: store_Read_def lenWidth_def)
qed

lemma store_Read_past_end:
  assumes "store_inv s rs" and "length (store_image rs) \<le> unat pos" and "unat pos < 2 ^ 63"
  shows "fst (store_Read s pos) = Inl EOF"
proof -
  have "st_file (store_flush s) = store_image rs" using assms(1) by (simp add: store_inv_def)
  moreover have "read_at (store_image rs) (word_of_nat (unat pos)) 8 = Inl EOF"
    using assms(2,3) by (intro read_at_past_end) simp_all
  ultimately show ?thesis by (simp add: store_Read_def lenWidth_def)
qed

subsection \<open>Properties of the store\<close>

text \<open>
  Append then read: on a store holding \<open>rs\<close> that stays below \<open>2^63\<close> bytes,
  \<open>Append(p)\<close> reports \<open>len(p) + 8\<close> bytes written at the old size, the store then holds
  \<open>rs @ [p]\<close>, and reading at the position of any record, the new one included, returns
  that record's payload (the buffer is flushed first).
\<close>

lemma store_append_read_roundtrip:
  assumes inv: "store_inv s rs" and b: "length (store_image rs) + length p + 8 < 2 ^ 63"
    and a: "store_Append s p = ((n, pos), s')"
  shows "n = word_of_nat (length p + 8) \<and> pos = word_of_nat (length (store_image rs)) \<and>
         store_inv s' (rs @ [p]) \<and>
         (\<forall>k < length rs + 1. fst (store_Read s' (word_of_nat (store_pos (rs @ [p]) k))) = Inr ((rs @ [p]) ! k))"
proof -
  have np: "n = word_of_nat (length p + 8)" "pos = word_of_nat (length (store_image rs))"
    using store_Append_eq [OF inv b] a by simp_all
  have inv': "store_inv s' (rs @ [p])" using store_Append_inv [OF inv b] a by simp
  have "fst (store_Read s' (word_of_nat (store_pos (rs @ [p]) k))) = Inr ((rs @ [p]) ! k)"
    if "k < length rs + 1" for k
    using store_Read_nth [OF inv', of k] that by simp
  with np inv' show ?thesis by blast
qed

text \<open>
  Reading out of range: on a store holding \<open>rs\<close>, a read at a position at or past
  the end of the records (and below \<open>2^63\<close>) fails with \<open>io.EOF\<close>.
\<close>

lemma store_read_out_of_range:
  assumes "store_inv s rs" and "length (store_image rs) \<le> unat pos" and "unat pos < 2 ^ 63"
  shows "fst (store_Read s pos) = Inl EOF"
  using store_Read_past_end [OF assms] .

text \<open>
  Close and reopen: closing a store flushes its buffer into its file, and opening
  that file again gives a store holding the same records with an empty buffer.
\<close>

lemma store_close_reopen:
  assumes "store_inv s rs"
  shows "store_inv (fst (newStore (store_Close d s) (st_name s))) rs \<and>
         st_buf (fst (newStore (store_Close d s) (st_name s))) = [] \<and>
         snd (newStore (store_Close d s) (st_name s)) = store_Close d s"
proof -
  have "st_file s @ st_buf s = store_image rs" "length (store_image rs) < 2 ^ 63"
    using assms by (simp_all add: store_inv_def)
  then show ?thesis
    by (simp add: newStore_def store_Close_def store_inv_def unat_of_nat_small Let_def)
qed

end
