(* ===== verification/Segment.thy ===== *)
theory Segment
  imports Index Store
begin

text \<open>
  The segment (specification 4.3): a store and an index for the offsets
  \<open>[baseOffset, nextOffset)\<close>, in the files \<open><baseOffset>.store\<close> and
  \<open><baseOffset>.index\<close> of the log's directory. \<open>Append\<close> writes the record to the
  store, then the entry \<open>(nextOffset - baseOffset, position)\<close> to the index, and only
  then advances \<open>nextOffset\<close>; \<open>Read\<close> looks the position up in the index and reads
  the store there; \<open>IsMaxed\<close> is the rotation trigger.
\<close>

text \<open>Decimal digits of a base offset, as \<open>fmt.Sprintf("%d")\<close> prints them.\<close>

fun dec :: "nat \<Rightarrow> string" where
  "dec n = (if n < 10 then [''0123456789'' ! n] else dec (n div 10) @ [''0123456789'' ! (n mod 10)])"

definition store_path :: "string \<Rightarrow> u64 \<Rightarrow> string" where
  "store_path dir base = dir @ ''/'' @ dec (unat base) @ ''.store''"

definition index_path :: "string \<Rightarrow> u64 \<Rightarrow> string" where
  "index_path dir base = dir @ ''/'' @ dec (unat base) @ ''.index''"

record segment =
  seg_store :: store
  seg_index :: index
  seg_baseOffset :: u64
  seg_nextOffset :: u64
  seg_config :: Config

text \<open>
  The offset after the index's last entry, from the sentinel read \<open>Read(-1)\<close>: the base
  offset when the read fails (an empty index), and a panic, which no error check catches,
  propagated.
\<close>

definition recover_next :: "u64 \<Rightarrow> (u32 \<times> u64) result \<Rightarrow> u64 result" where
  "recover_next base r =
     (case r of
        Inl SlicePanic \<Rightarrow> Inl SlicePanic
      | Inl _ \<Rightarrow> Inr base
      | Inr (off, _) \<Rightarrow> Inr (base + ucast off + 1))"

text \<open>
  Opening (or creating) a segment: both files are created if missing; \<open>nextOffset\<close> is
  recovered from the index's last entry (the sentinel read), or is \<open>baseOffset\<close> if
  the index is empty.
\<close>

definition newSegment :: "fs \<Rightarrow> string \<Rightarrow> u64 \<Rightarrow> Config \<Rightarrow> segment result \<times> fs" where
  "newSegment d dir base c =
     (let (st, d1) = newStore d (store_path dir base);
          ip = index_path dir base;
          d2 = (case d1 ip of None \<Rightarrow> d1(ip \<mapsto> []) | Some _ \<Rightarrow> d1)
      in case newIndex d2 ip c of
           (Inl e, d3) \<Rightarrow> (Inl e, d3)
         | (Inr ix, d3) \<Rightarrow>
             (case recover_next base (index_Read ix (-1)) of
                Inl e \<Rightarrow> (Inl e, d3)
              | Inr nx \<Rightarrow>
                  (Inr \<lparr>seg_store = st, seg_index = ix, seg_baseOffset = base,
                        seg_nextOffset = nx, seg_config = c\<rparr>, d3)))"

text \<open>\<open>Append\<close>: the store is written first, so a failing index write leaves the
  record's bytes in the store.\<close>

definition segment_Append :: "segment \<Rightarrow> byte list \<Rightarrow> u64 result \<times> segment" where
  "segment_Append s p =
     (let cur = seg_nextOffset s;
          r = store_Append (seg_store s) p;
          pos = snd (fst r);
          s1 = s\<lparr>seg_store := snd r\<rparr>
      in case index_Write (seg_index s) (ucast (seg_nextOffset s - seg_baseOffset s)) pos of
           Inl e \<Rightarrow> (Inl e, s1)
         | Inr ix \<Rightarrow> (Inr cur, s1\<lparr>seg_index := ix, seg_nextOffset := cur + 1\<rparr>))"

text \<open>
  \<open>Read(off)\<close>: a negative relative offset \<open>int64(off - baseOffset)\<close> fails with
  \<open>OffsetOutOfRange\<close> (specification 4.3); otherwise the index gives the position and
  the store the record.
\<close>

definition segment_Read :: "segment \<Rightarrow> u64 \<Rightarrow> byte list result \<times> segment" where
  "segment_Read s off =
     (if sint (off - seg_baseOffset s) < 0 then (Inl (ErrOffsetOutOfRange off), s)
      else
        (case index_Read (seg_index s) (off - seg_baseOffset s) of
           Inl e \<Rightarrow> (Inl e, s)
         | Inr (_, pos) \<Rightarrow>
             (let r = store_Read (seg_store s) pos in (fst r, s\<lparr>seg_store := snd r\<rparr>))))"

definition segment_IsMaxed :: "segment \<Rightarrow> bool" where
  "segment_IsMaxed s \<longleftrightarrow>
     MaxStoreBytes (Segment (seg_config s)) \<le> st_size (seg_store s) \<or>
     MaxIndexBytes (Segment (seg_config s)) \<le> idx_size (seg_index s)"

text \<open>\<open>Close\<close>: the index (which truncates its file to its size), then the store.\<close>

definition segment_Close :: "fs \<Rightarrow> segment \<Rightarrow> unit result \<times> fs" where
  "segment_Close d s =
     (case index_Close d (seg_index s) of
        (Inl e, d1) \<Rightarrow> (Inl e, d1)
      | (Inr _, d1) \<Rightarrow> (Inr (), store_Close d1 (seg_store s)))"

text \<open>\<open>Remove\<close>: close, then delete both files.\<close>

definition segment_Remove :: "fs \<Rightarrow> segment \<Rightarrow> unit result \<times> fs" where
  "segment_Remove d s =
     (case segment_Close d s of
        (Inl e, d1) \<Rightarrow> (Inl e, d1)
      | (Inr _, d1) \<Rightarrow> (Inr (), d1(idx_file (seg_index s) := None, st_name (seg_store s) := None)))"

subsection \<open>Abstraction and invariant\<close>

text \<open>
  A segment holds the store records \<open>ss\<close>: the store holds them, the index is
  well formed and its entry \<open>k\<close> is \<open>(k, position of ss ! k)\<close>, \<open>nextOffset\<close> is the base
  plus the number of entries, and the mapping has room for at most \<open>2^32\<close> entries (so
  relative offsets fit their \<open>uint32\<close>); the mapping is \<open>MaxIndexBytes\<close> long, as
  \<open>newIndex\<close> made it. Every record is indexed unless the index is
  full: a failed index write leaves its record's bytes in the store.
\<close>

definition seg_entries :: "byte list list \<Rightarrow> nat \<Rightarrow> (u32 \<times> u64) list" where
  "seg_entries ss n = map (\<lambda>k. (word_of_nat k, word_of_nat (store_pos ss k))) [0..<n]"

definition index_full :: "index \<Rightarrow> bool" where
  "index_full i \<longleftrightarrow> length (mmap i) < unat (idx_size i) + 12"

definition seg_count :: "segment \<Rightarrow> nat" where
  "seg_count s = length (index_entries (seg_index s))"

definition seg_inv :: "segment \<Rightarrow> byte list list \<Rightarrow> bool" where
  "seg_inv s ss \<longleftrightarrow>
     store_inv (seg_store s) ss \<and> index_inv (seg_index s) \<and>
     index_entries (seg_index s) = seg_entries ss (seg_count s) \<and>
     seg_count s \<le> length ss \<and> (seg_count s = length ss \<or> index_full (seg_index s)) \<and>
     length (mmap (seg_index s)) = unat (MaxIndexBytes (Segment (seg_config s))) \<and>
     length (mmap (seg_index s)) \<le> 12 * 2 ^ 32 \<and>
     seg_nextOffset s = seg_baseOffset s + word_of_nat (seg_count s)"

text \<open>The records a segment makes readable.\<close>

definition seg_records :: "segment \<Rightarrow> byte list list \<Rightarrow> byte list list" where
  "seg_records s ss = take (seg_count s) ss"

subsection \<open>Lemmas\<close>

lemma ucast_word_of_nat_u32: "ucast (word_of_nat n :: u64) = (word_of_nat n :: u32)"
  by transfer simp

lemma store_pos_snoc: "k \<le> length ss \<Longrightarrow> store_pos (ss @ [p]) k = store_pos ss k"
  by (simp add: store_pos_def)

lemma store_pos_length: "store_pos ss (length ss) = length (store_image ss)"
  by (simp add: store_pos_def)

lemma seg_entries_snoc:
  "n \<le> length ss \<Longrightarrow> seg_entries (ss @ [p]) n = seg_entries ss n"
  by (simp add: seg_entries_def store_pos_snoc)

lemma length_seg_entries [simp]: "length (seg_entries ss n) = n"
  by (simp add: seg_entries_def)

lemma seg_entries_Suc:
  "seg_entries ss (Suc n) = seg_entries ss n @ [(word_of_nat n, word_of_nat (store_pos ss n))]"
  by (simp add: seg_entries_def)

lemma seg_count_le:
  assumes "seg_inv s ss"
  shows "seg_count s \<le> 2 ^ 32"
proof -
  have "unat (idx_size (seg_index s)) \<le> 12 * 2 ^ 32"
    using assms by (auto simp: seg_inv_def index_inv_def)
  from div_le_mono [OF this, of 12] show ?thesis by (simp add: seg_count_def)
qed

lemma index_Write_full:
  "index_inv i \<Longrightarrow> index_Write i off pos = Inl e \<longleftrightarrow> index_full i \<and> e = EOF"
  by (auto simp: index_Write_eq index_full_def)

lemma index_Write_not_full:
  "index_inv i \<Longrightarrow> \<not> index_full i \<Longrightarrow> \<exists>i'. index_Write i off pos = Inr i'"
  by (simp add: index_Write_eq index_full_def)

lemma length_index_Write:
  "index_inv i \<Longrightarrow> index_Write i off pos = Inr i' \<Longrightarrow> length (mmap i') = length (mmap i)"
  by (auto simp: index_Write_eq index_inv_def split: if_splits)

lemma segment_Append_inv:
  assumes inv: "seg_inv s ss" and b: "length (store_image ss) + length p + 8 < 2 ^ 63"
  shows "seg_inv (snd (segment_Append s p)) (ss @ [p]) \<and>
         fst (segment_Append s p) =
           (if index_full (seg_index s) then Inl EOF else Inr (seg_nextOffset s)) \<and>
         seg_count (snd (segment_Append s p)) =
           (if index_full (seg_index s) then seg_count s else Suc (seg_count s)) \<and>
         seg_baseOffset (snd (segment_Append s p)) = seg_baseOffset s \<and>
         seg_config (snd (segment_Append s p)) = seg_config s"
proof -
  let ?ix = "seg_index s" and ?n = "seg_count s" and ?L = "length (store_image ss)"
  let ?st' = "snd (store_Append (seg_store s) p)"
  have si: "store_inv (seg_store s) ss" and ii: "index_inv ?ix"
    and e: "index_entries ?ix = seg_entries ss ?n" and nle: "?n \<le> length ss"
    and nx: "seg_nextOffset s = seg_baseOffset s + word_of_nat ?n"
    using inv by (simp_all add: seg_inv_def)
  have pos: "snd (fst (store_Append (seg_store s) p)) = word_of_nat ?L"
    using store_Append_eq [OF si b] by simp
  have sinv: "store_inv ?st' (ss @ [p])" using store_Append_inv [OF si b] .
  have rel: "ucast (seg_nextOffset s - seg_baseOffset s) = (word_of_nat ?n :: u32)"
    by (simp add: nx ucast_word_of_nat_u32)
  show ?thesis
  proof (cases "index_full ?ix")
    case True
    then have "index_Write ?ix (word_of_nat ?n) (word_of_nat ?L) = Inl EOF"
      using index_Write_full [OF ii] by simp
    then have "segment_Append s p = (Inl EOF, s\<lparr>seg_store := ?st'\<rparr>)"
      by (simp add: segment_Append_def pos rel Let_def)
    moreover have "seg_inv (s\<lparr>seg_store := ?st'\<rparr>) (ss @ [p])"
      using inv sinv True nle by (auto simp: seg_inv_def seg_count_def seg_entries_snoc)
    ultimately show ?thesis using True by (simp add: seg_count_def)
  next
    case False
    then have n: "?n = length ss" using inv by (simp add: seg_inv_def)
    obtain ix' where w: "index_Write ?ix (word_of_nat ?n) (word_of_nat ?L) = Inr ix'"
      using index_Write_not_full [OF ii False] by blast
    have ix': "index_inv ix'" "index_entries ix' = index_entries ?ix @ [(word_of_nat ?n, word_of_nat ?L)]"
      using index_Write_Inr [OF ii w] by simp_all
    have len: "length (mmap ix') = length (mmap ?ix)" by (rule length_index_Write [OF ii w])
    let ?s' = "s\<lparr>seg_store := ?st', seg_index := ix', seg_nextOffset := seg_nextOffset s + 1\<rparr>"
    have a: "segment_Append s p = (Inr (seg_nextOffset s), ?s')"
      by (simp add: segment_Append_def pos rel w Let_def)
    have e': "index_entries ix' = seg_entries (ss @ [p]) (Suc ?n)"
      using ix'(2) e n by (simp add: seg_entries_Suc seg_entries_snoc store_pos_snoc store_pos_length)
    have c': "seg_count ?s' = Suc ?n" using ix'(2) by (simp add: seg_count_def)
    have "seg_inv ?s' (ss @ [p])"
      using inv sinv ix'(1) e' c' len n by (simp add: seg_inv_def)
    with a False c' show ?thesis by simp
  qed
qed

lemma seg_inv_flush [simp]:
  "seg_inv (s\<lparr>seg_store := store_flush (seg_store s)\<rparr>) ss \<longleftrightarrow> seg_inv s ss"
  by (simp add: seg_inv_def seg_count_def)

lemma seg_rel_offset [simp]: "(b + w) - b = (w :: u64)"
  by simp

lemma segment_Read_nth:
  assumes inv: "seg_inv s ss" and k: "k < seg_count s"
  shows "segment_Read s (seg_baseOffset s + word_of_nat k) =
           (Inr (ss ! k), s\<lparr>seg_store := store_flush (seg_store s)\<rparr>)"
proof -
  have ii: "index_inv (seg_index s)" and si: "store_inv (seg_store s) ss"
    and e: "index_entries (seg_index s) = seg_entries ss (seg_count s)"
    and le: "seg_count s \<le> length ss"
    using inv by (simp_all add: seg_inv_def)
  have k32: "k < 2 ^ 32" using k seg_count_le [OF inv] by simp
  have sk: "\<not> sint (word_of_nat k :: u64) < 0" using k32 by (simp add: sint_of_nat_small)
  have c: "length (index_entries (seg_index s)) = seg_count s" by (simp add: seg_count_def)
  have ek: "index_entries (seg_index s) ! k = (word_of_nat k, word_of_nat (store_pos ss k))"
    using k by (simp only: e) (simp add: seg_entries_def)
  have "index_Read (seg_index s) (word_of_nat k) = Inr (word_of_nat k, word_of_nat (store_pos ss k))"
    using index_Read_of_nat [OF ii k32] k by (simp only: c ek if_True)
  moreover have "store_Read (seg_store s) (word_of_nat (store_pos ss k)) = (Inr (ss ! k), store_flush (seg_store s))"
    using store_Read_nth [OF si] k le by simp
  ultimately show ?thesis using sk by (simp add: segment_Read_def)
qed

lemma segment_Read_past:
  assumes inv: "seg_inv s ss" and k: "seg_count s \<le> k" "k < 2 ^ 32"
  shows "segment_Read s (seg_baseOffset s + word_of_nat k) = (Inl EOF, s)"
proof -
  have ii: "index_inv (seg_index s)" using inv by (simp add: seg_inv_def)
  have "index_Read (seg_index s) (word_of_nat k) = Inl EOF"
    using index_Read_of_nat [OF ii k(2)] k(1) by (simp add: seg_count_def)
  moreover have "\<not> sint (word_of_nat k :: u64) < 0" using k(2) by (simp add: sint_of_nat_small)
  ultimately show ?thesis by (simp add: segment_Read_def)
qed

lemma store_path_neq_index_path: "store_path dir b \<noteq> index_path dir b'"
  by (simp add: store_path_def index_path_def)

text \<open>A configuration the engine can run with: \<open>MaxIndexBytes\<close> is positive, converts to
  \<open>int64\<close>, and leaves room for at most \<open>2^32\<close> entries.\<close>

definition cfg_ok :: "Config \<Rightarrow> bool" where
  "cfg_ok c \<longleftrightarrow> 0 < unat (MaxIndexBytes (Segment c)) \<and> unat (MaxIndexBytes (Segment c)) \<le> 12 * 2 ^ 32"

lemma newSegment_fresh:
  assumes "d (store_path dir base) = None" and "d (index_path dir base) = None" and c: "cfg_ok c"
  shows "newSegment d dir base c =
           (Inr \<lparr>seg_store = \<lparr>st_name = store_path dir base, st_file = [], st_buf = [], st_size = 0\<rparr>,
                 seg_index = \<lparr>idx_file = index_path dir base,
                              mmap = replicate (unat (MaxIndexBytes (Segment c))) 0, idx_size = 0\<rparr>,
                 seg_baseOffset = base, seg_nextOffset = base, seg_config = c\<rparr>,
            d(store_path dir base \<mapsto> [],
              index_path dir base \<mapsto> replicate (unat (MaxIndexBytes (Segment c))) 0))"
proof -
  let ?M = "unat (MaxIndexBytes (Segment c))"
  have m: "0 < ?M" "?M < 2 ^ 63" using c by (simp_all add: cfg_ok_def)
  let ?d2 = "d(store_path dir base \<mapsto> [], index_path dir base \<mapsto> [])"
  have ni: "newIndex ?d2 (index_path dir base) c =
      (Inr \<lparr>idx_file = index_path dir base, mmap = replicate ?M 0, idx_size = 0\<rparr>,
       ?d2(index_path dir base \<mapsto> replicate ?M 0))"
    using newIndex_eq [of ?d2 "index_path dir base" "[]" c, OF _ m] by (simp add: Let_def)
  have r: "index_Read \<lparr>idx_file = index_path dir base, mmap = replicate ?M 0, idx_size = 0\<rparr> (-1) = Inl EOF"
    by (simp add: index_Read_def)
  show ?thesis
    using assms(1,2) ni r store_path_neq_index_path [of dir base base]
    by (simp add: newSegment_def newStore_def recover_next_def Let_def)
qed

lemma newSegment_fresh_inv:
  assumes "cfg_ok c"
  shows "seg_inv \<lparr>seg_store = \<lparr>st_name = sn, st_file = [], st_buf = [], st_size = 0\<rparr>,
                 seg_index = \<lparr>idx_file = ip, mmap = replicate (unat (MaxIndexBytes (Segment c))) 0,
                              idx_size = 0\<rparr>,
                 seg_baseOffset = base, seg_nextOffset = base, seg_config = c\<rparr> []"
  using assms by (simp add: seg_inv_def store_inv_def store_image_def index_inv_def index_entries_def
      seg_count_def seg_entries_def cfg_ok_def)

lemma seg_full_maxed:
  assumes inv: "seg_inv s ss" and m: "unat (MaxIndexBytes (Segment (seg_config s))) mod 12 = 0"
    and f: "index_full (seg_index s)"
  shows "segment_IsMaxed s"
proof -
  let ?M = "unat (MaxIndexBytes (Segment (seg_config s)))" and ?z = "unat (idx_size (seg_index s))"
  have "?z \<le> ?M" "?z mod 12 = 0" "?M < ?z + 12"
    using inv f by (simp_all add: seg_inv_def index_inv_def index_full_def)
  with m have "?M \<le> ?z" by presburger
  then show ?thesis by (simp add: segment_IsMaxed_def word_le_nat_alt)
qed

lemma length_seg_records: "seg_inv s ss \<Longrightarrow> length (seg_records s ss) = seg_count s"
  by (simp add: seg_records_def seg_inv_def min_def)

lemma nth_seg_records: "k < seg_count s \<Longrightarrow> seg_records s ss ! k = ss ! k"
  by (simp add: seg_records_def)

text \<open>A fresh segment with base offset 16 in directory \<open>d\<close>, for the witnesses.\<close>

abbreviation seg_cfg :: Config where
  "seg_cfg \<equiv> \<lparr>Segment = \<lparr>MaxStoreBytes = 1024, MaxIndexBytes = 36, InitialOffset = 0\<rparr>\<rparr>"

abbreviation seg16 :: segment where
  "seg16 \<equiv> \<lparr>seg_store = \<lparr>st_name = ''d/16.store'', st_file = [], st_buf = [], st_size = 0\<rparr>,
             seg_index = \<lparr>idx_file = ''d/16.index'', mmap = replicate 36 0, idx_size = 0\<rparr>,
             seg_baseOffset = 16, seg_nextOffset = 16, seg_config = seg_cfg\<rparr>"

lemma seg16_inv: "seg_inv seg16 []"
  using newSegment_fresh_inv [of seg_cfg] by (simp add: cfg_ok_def)

lemma ucast_word_of_nat_u64:
  "k < 2 ^ 32 \<Longrightarrow> ucast (word_of_nat k :: u32) = (word_of_nat k :: u64)"
  by transfer (simp add: take_bit_int_eq_self)

lemma segment_Close_eq:
  assumes "seg_inv s ss"
  shows "segment_Close d s =
           (Inr (), d(idx_file (seg_index s) \<mapsto> take (unat (idx_size (seg_index s))) (mmap (seg_index s)),
                      st_name (seg_store s) \<mapsto> store_image ss))"
proof -
  have ii: "index_inv (seg_index s)" and "st_file (store_flush (seg_store s)) = store_image ss"
    using assms by (simp_all add: seg_inv_def store_inv_def)
  then show ?thesis using index_Close_eq [OF ii, of d] by (simp add: segment_Close_def store_Close_def)
qed

text \<open>The offset recovered from a well-formed index whose entries are those of \<open>ss\<close>.\<close>

lemma recovered_nextOffset:
  assumes ii: "index_inv i" and e: "index_entries i = seg_entries ss n" and n: "n \<le> 2 ^ 32"
  shows "recover_next base (index_Read i (-1)) = Inr (base + word_of_nat n)"
proof (cases n)
  case 0
  have "length (index_entries i) = 0" by (simp only: e length_seg_entries 0)
  then have a: "unat (idx_size i) div 12 = 0" by (simp only: length_index_entries)
  have b: "unat (idx_size i) mod 12 = 0" using ii by (simp add: index_inv_def)
  have "unat (idx_size i) = 0" using div_mult_mod_eq [of "unat (idx_size i)" 12] a b by simp
  then have "idx_size i = 0" by (simp add: unat_eq_zero)
  with 0 show ?thesis by (simp add: index_Read_def recover_next_def)
next
  case (Suc m)
  have len: "length (index_entries i) = Suc m" by (simp only: e length_seg_entries Suc)
  then have ne: "index_entries i \<noteq> []" by (metis length_greater_0_conv zero_less_Suc)
  have "index_Read i (-1) = Inr (last (index_entries i))"
    using index_Read_last [OF ii ne] len n Suc by simp
  also have "last (index_entries i) = (word_of_nat m, word_of_nat (store_pos ss m))"
    by (simp only: e) (simp add: seg_entries_def Suc)
  finally have r: "index_Read i (-1) = Inr (word_of_nat m, word_of_nat (store_pos ss m))" .
  have "m < 2 ^ 32" using Suc n by simp
  then have u: "ucast (word_of_nat m :: u32) = (word_of_nat m :: u64)" by (rule ucast_word_of_nat_u64)
  have "recover_next base (index_Read i (-1)) = Inr (base + ucast (word_of_nat m :: u32) + 1)"
    by (simp add: r recover_next_def)
  also have "\<dots> = Inr (base + word_of_nat m + 1)" by (simp only: u)
  also have "\<dots> = Inr (base + word_of_nat n)" using Suc by simp
  finally show ?thesis .
qed

lemma segment_Append_names:
  "idx_file (seg_index (snd (segment_Append s p))) = idx_file (seg_index s) \<and>
   st_name (seg_store (snd (segment_Append s p))) = st_name (seg_store s)"
  by (auto simp: segment_Append_def store_Append_def index_Write_def Let_def
      split: sum.split prod.split)

subsection \<open>Properties of the segment\<close>

text \<open>
  C26. \<open>Append\<close> refines appending to the segment's records: on a well-formed segment
  holding the store records \<open>ss\<close>, \<open>Append(p)\<close> keeps the segment well formed with the
  store holding \<open>ss @ [p]\<close>; if the index has room it returns \<open>nextOffset\<close>, the
  readable records gain \<open>p\<close> and \<open>nextOffset\<close> advances by one; if the index is full it
  fails with \<open>io.EOF\<close> and nothing readable changes (the record's bytes stay in the
  store).
\<close>

theorem segment_append_refines:
  assumes inv: "seg_inv s ss" and b: "length (store_image ss) + length p + 8 < 2 ^ 63"
    and a: "segment_Append s p = (r, s')"
  shows "seg_inv s' (ss @ [p]) \<and>
         (if index_full (seg_index s)
          then r = Inl EOF \<and> seg_records s' (ss @ [p]) = seg_records s ss \<and>
               seg_nextOffset s' = seg_nextOffset s
          else r = Inr (seg_nextOffset s) \<and> seg_records s' (ss @ [p]) = seg_records s ss @ [p] \<and>
               seg_nextOffset s' = seg_nextOffset s + 1)"
proof -
  have A: "seg_inv s' (ss @ [p])"
    "r = (if index_full (seg_index s) then Inl EOF else Inr (seg_nextOffset s))"
    "seg_count s' = (if index_full (seg_index s) then seg_count s else Suc (seg_count s))"
    "seg_baseOffset s' = seg_baseOffset s"
    using segment_Append_inv [OF inv b] a by simp_all
  have nx: "seg_nextOffset s = seg_baseOffset s + word_of_nat (seg_count s)"
    "seg_nextOffset s' = seg_baseOffset s' + word_of_nat (seg_count s')"
    using inv A(1) by (simp_all add: seg_inv_def)
  have le: "seg_count s \<le> length ss" using inv by (simp add: seg_inv_def)
  show ?thesis
  proof (cases "index_full (seg_index s)")
    case True
    then show ?thesis using A nx le by (simp add: seg_records_def)
  next
    case False
    then have "seg_count s = length ss" using inv by (simp add: seg_inv_def)
    then show ?thesis using A nx False by (simp add: seg_records_def)
  qed
qed

theorem segment_append_refines_witness:
  "seg_inv seg16 [] \<and> segment_Append seg16 [104, 105] = (Inr 16, snd (segment_Append seg16 [104, 105])) \<and>
   seg_records (snd (segment_Append seg16 [104, 105])) [[104, 105]] = [[104, 105]] \<and>
   seg_nextOffset (snd (segment_Append seg16 [104, 105])) = 17"
proof -
  have nf: "\<not> index_full (seg_index seg16)" by (simp add: index_full_def)
  have b: "length (store_image []) + length [104, 105 :: byte] + 8 < 2 ^ 63" by (simp add: store_image_def)
  from segment_append_refines [OF seg16_inv b, of "fst (segment_Append seg16 [104, 105])"
      "snd (segment_Append seg16 [104, 105])"] nf
  have "fst (segment_Append seg16 [104, 105]) = Inr 16"
    "seg_records (snd (segment_Append seg16 [104, 105])) [[104, 105]] = [[104, 105]]"
    "seg_nextOffset (snd (segment_Append seg16 [104, 105])) = 17"
    by (simp_all add: seg_records_def)
  then show ?thesis using seg16_inv by (simp add: prod_eq_iff)
qed

text \<open>
  C27. \<open>Read\<close> refines indexing the segment's records: on a well-formed segment,
  reading the global offset \<open>baseOffset + k\<close> (\<open>k < 2^32\<close>) returns the \<open>k\<close>-th readable
  record, or \<open>io.EOF\<close> past the last one.
\<close>

theorem segment_read_refines:
  assumes inv: "seg_inv s ss" and k: "k < 2 ^ 32"
  shows "fst (segment_Read s (seg_baseOffset s + word_of_nat k)) =
           (if k < length (seg_records s ss) then Inr (seg_records s ss ! k) else Inl EOF)"
proof (cases "k < seg_count s")
  case True
  then show ?thesis
    using segment_Read_nth [OF inv True] by (simp add: length_seg_records [OF inv] nth_seg_records)
next
  case False
  then show ?thesis
    using segment_Read_past [OF inv _ k] by (simp add: length_seg_records [OF inv])
qed

theorem segment_read_refines_witness:
  "seg_inv (snd (segment_Append seg16 [104, 105])) [[104, 105]] \<and>
   fst (segment_Read (snd (segment_Append seg16 [104, 105])) 16) = Inr [104, 105] \<and>
   fst (segment_Read (snd (segment_Append seg16 [104, 105])) 17) = Inl EOF"
proof -
  have b: "length (store_image []) + length [104, 105 :: byte] + 8 < 2 ^ 63" by (simp add: store_image_def)
  have inv: "seg_inv (snd (segment_Append seg16 [104, 105])) [[104, 105]]"
    and c: "seg_count (snd (segment_Append seg16 [104, 105])) = 1"
    and bs: "seg_baseOffset (snd (segment_Append seg16 [104, 105])) = 16"
    using segment_Append_inv [OF seg16_inv b] by (simp_all add: index_full_def seg_count_def index_entries_def)
  have "fst (segment_Read (snd (segment_Append seg16 [104, 105])) (16 + word_of_nat 0)) = Inr [104, 105]"
    "fst (segment_Read (snd (segment_Append seg16 [104, 105])) (16 + word_of_nat 1)) = Inl EOF"
    using segment_read_refines [OF inv, of 0] segment_read_refines [OF inv, of 1] bs
    by (simp_all add: length_seg_records [OF inv] c seg_records_def)
  with inv show ?thesis by simp
qed

text \<open>
  C28. Creating a segment in a directory without its files creates an empty store file
  and an index file of \<open>MaxIndexBytes\<close> zero bytes, and gives a well-formed empty
  segment whose \<open>nextOffset\<close> is its base offset.
\<close>

theorem newSegment_creates_empty:
  assumes "d (store_path dir base) = None" and "d (index_path dir base) = None" and "cfg_ok c"
  shows "\<exists>s. newSegment d dir base c =
               (Inr s, d(store_path dir base \<mapsto> [],
                         index_path dir base \<mapsto> replicate (unat (MaxIndexBytes (Segment c))) 0)) \<and>
             seg_inv s [] \<and> seg_baseOffset s = base \<and> seg_nextOffset s = base \<and> seg_config s = c"
  using newSegment_fresh [OF assms] newSegment_fresh_inv [OF assms(3)] by simp

theorem newSegment_creates_empty_witness:
  "cfg_ok seg_cfg \<and>
   (\<exists>s. newSegment Map.empty ''d'' 16 seg_cfg =
          (Inr s, [''d/16.store'' \<mapsto> [], ''d/16.index'' \<mapsto> replicate 36 0]) \<and>
        seg_inv s [] \<and> seg_nextOffset s = 16)"
proof -
  have p: "store_path ''d'' 16 = ''d/16.store''" "index_path ''d'' 16 = ''d/16.index''"
    by (simp_all add: store_path_def index_path_def)
  have c: "cfg_ok seg_cfg" by (simp add: cfg_ok_def)
  show ?thesis
    using newSegment_creates_empty [of Map.empty "''d''" 16 seg_cfg] c by (simp add: p) blast
qed

text \<open>
  C29. Close and reopen (recovery): closing a well-formed segment whose files are
  \<open><base>.store\<close> and \<open><base>.index\<close> of a directory succeeds, and opening the segment
  again from the closed files gives a well-formed segment over the same store records
  with the same \<open>nextOffset\<close> (recomputed from the index's last entry) and the same
  readable records.
\<close>

theorem segment_close_reopen:
  assumes inv: "seg_inv s ss" and c: "cfg_ok (seg_config s)"
    and ip: "idx_file (seg_index s) = index_path dir (seg_baseOffset s)"
    and sp: "st_name (seg_store s) = store_path dir (seg_baseOffset s)"
  shows "\<exists>d' s' d''. segment_Close d s = (Inr (), d') \<and>
           newSegment d' dir (seg_baseOffset s) (seg_config s) = (Inr s', d'') \<and>
           seg_inv s' ss \<and> seg_nextOffset s' = seg_nextOffset s \<and>
           seg_records s' ss = seg_records s ss"
proof -
  let ?ix = "seg_index s" and ?B = "seg_baseOffset s" and ?c = "seg_config s"
  let ?z = "unat (idx_size ?ix)" and ?M = "unat (MaxIndexBytes (Segment ?c))"
  let ?bs = "take ?z (mmap ?ix)" and ?L = "store_image ss"
  let ?ip = "index_path dir ?B" and ?sp = "store_path dir ?B"
  let ?d' = "d(?ip \<mapsto> ?bs, ?sp \<mapsto> ?L)"
  have ii: "index_inv ?ix" and si: "store_inv (seg_store s) ss"
    and e: "index_entries ?ix = seg_entries ss (seg_count s)"
    and mM: "length (mmap ?ix) = ?M" and le: "seg_count s \<le> length ss"
    and fl: "seg_count s = length ss \<or> index_full ?ix"
    and nx: "seg_nextOffset s = ?B + word_of_nat (seg_count s)"
    using inv by (simp_all add: seg_inv_def)
  have z: "?z \<le> length (mmap ?ix)" "?z mod 12 = 0" "length (mmap ?ix) < 2 ^ 63"
    using ii by (simp_all add: index_inv_def)
  have M: "0 < ?M" "?M < 2 ^ 63" "?M \<le> 12 * 2 ^ 32" using c by (simp_all add: cfg_ok_def)
  have lbs: "length ?bs = ?z" using z by simp
  have L: "length ?L < 2 ^ 63" using si by (simp add: store_inv_def)
  have close: "segment_Close d s = (Inr (), ?d')"
    using segment_Close_eq [OF inv, of d] ip sp by simp
  have ne: "?sp \<noteq> ?ip" by (rule store_path_neq_index_path)
  have st: "newStore ?d' ?sp = (\<lparr>st_name = ?sp, st_file = ?L, st_buf = [], st_size = word_of_nat (length ?L)\<rparr>, ?d')"
    by (simp add: newStore_def Let_def)
  obtain ix' d3 where ni: "newIndex ?d' ?ip ?c = (Inr ix', d3)" and ii': "index_inv ix'"
      and e': "index_entries ix' = map (entry_at ?bs) [0..<length ?bs div 12]"
    using newIndex_inv [of ?d' ?ip ?bs ?c] ne lbs z mM M by auto
  have ix': "ix' = \<lparr>idx_file = ?ip, mmap = take ?M ?bs @ replicate (?M - length ?bs) 0,
                   idx_size = word_of_nat (length ?bs)\<rparr>"
    using newIndex_eq [of ?d' ?ip ?bs ?c] ni ne M by (simp add: Let_def)
  have ee: "index_entries ix' = index_entries ?ix"
    using e' index_entries_take_size [OF ii] by (simp only: lbs)
  have cnt: "length (index_entries ix') = seg_count s" by (simp add: ee seg_count_def)
  have mlen: "length (mmap ix') = ?M" using ix' lbs z mM by simp
  have sz: "idx_size ix' = idx_size ?ix" using ix' lbs by simp
  have nx': "recover_next ?B (index_Read ix' (-1)) = Inr (?B + word_of_nat (seg_count s))"
    using recovered_nextOffset [OF ii', of ss "seg_count s" ?B] ee e seg_count_le [OF inv] by simp
  let ?s' = "\<lparr>seg_store = \<lparr>st_name = ?sp, st_file = ?L, st_buf = [], st_size = word_of_nat (length ?L)\<rparr>,
              seg_index = ix', seg_baseOffset = ?B,
              seg_nextOffset = ?B + word_of_nat (seg_count s), seg_config = ?c\<rparr>"
  have ns: "newSegment ?d' dir ?B ?c = (Inr ?s', d3)"
    using st ni nx' ne by (simp add: newSegment_def Let_def)
  have c': "seg_count ?s' = seg_count s" using cnt by (simp add: seg_count_def)
  have "seg_inv ?s' ss"
    using si ii' ee e le fl mlen sz mM M L c' unfolding seg_inv_def
    by (simp add: store_inv_def unat_of_nat_small index_full_def)
  moreover have "seg_records ?s' ss = seg_records s ss" using c' by (simp add: seg_records_def)
  ultimately show ?thesis using close ns nx by simp
qed

theorem segment_close_reopen_witness:
  "seg_inv (snd (segment_Append seg16 [104, 105])) [[104, 105]] \<and> cfg_ok seg_cfg \<and>
   (\<exists>d' s' d''. segment_Close Map.empty (snd (segment_Append seg16 [104, 105])) = (Inr (), d') \<and>
      newSegment d' ''d'' 16 seg_cfg = (Inr s', d'') \<and> seg_inv s' [[104, 105]] \<and>
      seg_nextOffset s' = 17 \<and> seg_records s' [[104, 105]] = [[104, 105]])"
proof -
  let ?s1 = "snd (segment_Append seg16 [104, 105])"
  have b: "length (store_image []) + length [104, 105 :: byte] + 8 < 2 ^ 63" by (simp add: store_image_def)
  have inv: "seg_inv ?s1 [[104, 105]]" and c: "seg_count ?s1 = 1"
    and bs: "seg_baseOffset ?s1 = 16" and cf: "seg_config ?s1 = seg_cfg"
    using segment_Append_inv [OF seg16_inv b] by (simp_all add: index_full_def seg_count_def index_entries_def)
  have ok: "cfg_ok seg_cfg" by (simp add: cfg_ok_def)
  have ip: "idx_file (seg_index ?s1) = index_path ''d'' (seg_baseOffset ?s1)"
    and sp: "st_name (seg_store ?s1) = store_path ''d'' (seg_baseOffset ?s1)"
    using segment_Append_names [of seg16 "[104, 105]"] bs by (simp_all add: index_path_def store_path_def)
  have nx: "seg_nextOffset ?s1 = 17" using inv c bs by (simp add: seg_inv_def)
  have r: "seg_records ?s1 [[104, 105]] = [[104, 105]]" using c by (simp add: seg_records_def)
  show ?thesis
    using segment_close_reopen [OF inv _ ip sp, of Map.empty] ok cf bs nx r inv by auto
qed

end
