(* ===== verification/ServerLog.thy ===== *)
theory ServerLog
  imports Prelude
begin

text \<open>
  The server's in-memory log, \<open>src/internal/server/log.go\<close>: a slice of records behind
  a mutex. \<open>Append\<close> stamps the record with the current length of the slice as its
  offset and appends it; \<open>Read\<close> returns the record at an offset, or
  \<open>ErrOffsetNotFound\<close> with a zero \<open>Record\<close> when the offset is not below the length.
  Both methods hold \<open>c.mu\<close> for their whole body, so concurrent calls take effect one at
  a time, in the order they acquire the mutex: a concurrent history is a list of calls in
  that order, which \<open>Log_run\<close> executes. (Theory \<open>ServerMutex\<close> derives this from a
  model of the lock itself.)

  Go returns a value and an \<open>error\<close> together; the model keeps that shape, a pair whose
  second part is \<open>error option\<close>, because the HTTP handlers use the value even when the
  error is set.
\<close>

record Record =
  Value :: "byte list"
  Offset :: u64

record Log =
  records :: "Record list"

definition NewLog :: Log where
  "NewLog = \<lparr>records = []\<rparr>"

definition Log_Append :: "Log \<Rightarrow> Record \<Rightarrow> (u64 \<times> error option) \<times> Log" where
  "Log_Append c record =
     (let record' = record\<lparr>Offset := word_of_nat (length (records c))\<rparr>
      in ((Offset record', None), c\<lparr>records := records c @ [record']\<rparr>))"

text \<open>\<open>Record{}\<close>: the zero value Go returns beside an error.\<close>

definition Record_zero :: Record where
  "Record_zero = \<lparr>Value = [], Offset = 0\<rparr>"

definition Log_Read :: "Log \<Rightarrow> u64 \<Rightarrow> Record \<times> error option" where
  "Log_Read c offset =
     (if word_of_nat (length (records c)) \<le> offset then (Record_zero, Some ErrOffsetNotFound)
      else (records c ! unat offset, None))"

subsection \<open>Calls serialised by the mutex\<close>

datatype call = CAppend Record | CRead u64

datatype reply = RAppend u64 "error option" | RRead Record "error option"

fun Log_call :: "Log \<Rightarrow> call \<Rightarrow> reply \<times> Log" where
  "Log_call c (CAppend r) =
     (let res = Log_Append c r in (RAppend (fst (fst res)) (snd (fst res)), snd res))"
| "Log_call c (CRead off) = (let res = Log_Read c off in (RRead (fst res) (snd res), c))"

text \<open>A history: each element is a client (a goroutine) and the call it made.\<close>

fun Log_run :: "Log \<Rightarrow> ('t \<times> call) list \<Rightarrow> ('t \<times> reply) list \<times> Log" where
  "Log_run c [] = ([], c)"
| "Log_run c ((t, x) # xs) =
     (let step = Log_call c x; rest = Log_run (snd step) xs
      in ((t, fst step) # fst rest, snd rest))"

subsection \<open>Abstraction and invariant\<close>

text \<open>Every stored record carries its own position as offset.\<close>

definition Log_wf :: "Log \<Rightarrow> bool" where
  "Log_wf c \<longleftrightarrow> (\<forall>i < length (records c). Offset (records c ! i) = word_of_nat i)"

text \<open>The appends of a history, and the offsets its replies hand out.\<close>

fun appended :: "('t \<times> call) list \<Rightarrow> Record list" where
  "appended [] = []"
| "appended ((t, CAppend r) # xs) = r # appended xs"
| "appended ((t, CRead o') # xs) = appended xs"

fun offsets_of :: "('t \<times> reply) list \<Rightarrow> u64 list" where
  "offsets_of [] = []"
| "offsets_of ((t, RAppend o' e) # rs) = o' # offsets_of rs"
| "offsets_of ((t, RRead r e) # rs) = offsets_of rs"


text \<open>
  The abstract log the server promises: a list of values, where an append answers the
  list's length and a read answers the value at the offset, if there is one.
\<close>

datatype areply = AAppend nat | ARead "byte list option"

fun abs_reply :: "reply \<Rightarrow> areply" where
  "abs_reply (RAppend o' e) = AAppend (unat o')"
| "abs_reply (RRead r None) = ARead (Some (Value r))"
| "abs_reply (RRead r (Some e)) = ARead None"

fun abs_run :: "byte list list \<Rightarrow> ('t \<times> call) list \<Rightarrow> ('t \<times> areply) list" where
  "abs_run vs [] = []"
| "abs_run vs ((t, CAppend r) # xs) = (t, AAppend (length vs)) # abs_run (vs @ [Value r]) xs"
| "abs_run vs ((t, CRead o') # xs) =
     (t, ARead (if unat o' < length vs then Some (vs ! unat o') else None)) # abs_run vs xs"

text \<open>A history for the witnesses: two clients append, then one reads three offsets.\<close>

abbreviation srv_hist :: "(nat \<times> call) list" where
  "srv_hist \<equiv> [(0, CAppend \<lparr>Value = [104, 105], Offset = 7\<rparr>),
               (1, CAppend \<lparr>Value = [104, 101, 108, 108, 111], Offset = 0\<rparr>),
               (0, CRead 1), (1, CRead 2)]"

subsection \<open>Lemmas\<close>

lemma Log_Read_eq:
  assumes "length (records c) < 2 ^ 64"
  shows "Log_Read c off =
    (if length (records c) \<le> unat off then (Record_zero, Some ErrOffsetNotFound)
     else (records c ! unat off, None))"
  using assms by (simp add: Log_Read_def word_le_nat_alt unat_of_nat_small)

lemma Log_Append_eq:
  "Log_Append c r =
     ((word_of_nat (length (records c)), None),
      c\<lparr>records := records c @ [r\<lparr>Offset := word_of_nat (length (records c))\<rparr>]\<rparr>)"
  by (simp add: Log_Append_def)

lemma Log_wf_snoc:
  "Log_wf c \<Longrightarrow> Log_wf (c\<lparr>records := records c @ [r\<lparr>Offset := word_of_nat (length (records c))\<rparr>]\<rparr>)"
  by (simp add: Log_wf_def nth_append less_Suc_eq)

lemma Log_wf_call: "Log_wf c \<Longrightarrow> Log_wf (snd (Log_call c x))"
  by (cases x) (simp_all add: Log_Append_eq Log_wf_snoc Let_def)

lemma Log_run_wf: "Log_wf c \<Longrightarrow> Log_wf (snd (Log_run c xs))"
proof (induction xs arbitrary: c)
  case Nil
  then show ?case by simp
next
  case (Cons a xs)
  obtain t x where a: "a = (t, x)" by fastforce
  from Cons.prems have "Log_wf (snd (Log_call c x))" by (rule Log_wf_call)
  then have "Log_wf (snd (Log_run (snd (Log_call c x)) xs))" by (rule Cons.IH)
  then show ?case by (simp add: a Let_def)
qed

lemma Log_run_offsets:
  "offsets_of (fst (Log_run c xs)) =
     map word_of_nat [length (records c)..<length (records c) + length (appended xs)]"
proof (induction xs arbitrary: c)
  case Nil
  then show ?case by simp
next
  case (Cons a xs)
  obtain t x where a: "a = (t, x)" by fastforce
  show ?case
  proof (cases x)
    case (CAppend r)
    have u: "[length (records c)..<length (records c) + length (appended (a # xs))]
          = length (records c) # [Suc (length (records c))..<Suc (length (records c)) + length (appended xs)]"
      by (simp add: a CAppend upt_conv_Cons del: upt_Suc)
    show ?thesis
      using Cons.IH [of "c\<lparr>records := records c @ [r\<lparr>Offset := word_of_nat (length (records c))\<rparr>]\<rparr>"]
      by (simp add: a CAppend Log_Append_eq Let_def upt_conv_Cons del: upt_Suc)
  next
    case (CRead off)
    with Cons.IH [of c] show ?thesis by (simp add: a Let_def)
  qed
qed

lemma Log_run_refines:
  assumes "length (records c) + length (appended xs) < 2 ^ 64"
  shows "map (\<lambda>(t, r). (t, abs_reply r)) (fst (Log_run c xs)) = abs_run (map Value (records c)) xs"
  using assms
proof (induction xs arbitrary: c)
  case Nil
  then show ?case by simp
next
  case (Cons a xs)
  obtain t x where a: "a = (t, x)" by fastforce
  show ?case
  proof (cases x)
    case (CAppend r)
    let ?c' = "c\<lparr>records := records c @ [r\<lparr>Offset := word_of_nat (length (records c))\<rparr>]\<rparr>"
    have "length (records ?c') + length (appended xs) < 2 ^ 64"
      using Cons.prems by (simp add: a CAppend)
    with Cons.IH [of ?c'] have ih: "map (\<lambda>(t, r). (t, abs_reply r)) (fst (Log_run ?c' xs)) =
                          abs_run (map Value (records c) @ [Value r]) xs" by simp
    have u: "unat (word_of_nat (length (records c)) :: u64) = length (records c)"
      using Cons.prems by (simp add: unat_of_nat_small a CAppend)
    show ?thesis using ih u by (simp add: a CAppend Log_Append_eq Let_def)
  next
    case (CRead off)
    have l: "length (records c) < 2 ^ 64" using Cons.prems by simp
    with Cons.IH [of c] Cons.prems show ?thesis
      by (auto simp: a CRead Log_Read_eq Record_zero_def Let_def)
  qed
qed

subsection \<open>Properties of the server log\<close>

text \<open>
  C12. Append then Read: on a log with fewer than \<open>2^64 - 1\<close> records, \<open>Append(r)\<close>
  returns no error and the offset \<open>len(records)\<close>, and reading that offset afterwards
  returns \<open>r\<close> stamped with it.
\<close>

theorem Log_append_read_roundtrip:
  assumes n: "length (records c) < 2 ^ 64 - 1" and a: "Log_Append c r = ((off, err), c')"
  shows "err = None \<and> off = word_of_nat (length (records c)) \<and>
         Log_Read c' off = (r\<lparr>Offset := off\<rparr>, None)"
proof -
  from a have e: "err = None" "off = word_of_nat (length (records c))"
    and c': "c' = c\<lparr>records := records c @ [r\<lparr>Offset := off\<rparr>]\<rparr>"
    by (auto simp: Log_Append_eq)
  have u: "unat off = length (records c)"
    using n by (simp add: e unat_of_nat_small)
  have "Log_Read c' off = (r\<lparr>Offset := off\<rparr>, None)"
    using n by (simp add: Log_Read_eq c' u)
  with e show ?thesis by simp
qed

theorem Log_append_read_roundtrip_witness:
  "Log_Append NewLog \<lparr>Value = [104, 105], Offset = 7\<rparr> =
     ((0, None), \<lparr>records = [\<lparr>Value = [104, 105], Offset = 0\<rparr>]\<rparr>) \<and>
   Log_Read \<lparr>records = [\<lparr>Value = [104, 105], Offset = 0\<rparr>]\<rparr> 0 = (\<lparr>Value = [104, 105], Offset = 0\<rparr>, None)"
proof -
  have a: "Log_Append NewLog \<lparr>Value = [104, 105], Offset = 7\<rparr> =
             ((0, None), \<lparr>records = [\<lparr>Value = [104, 105], Offset = 0\<rparr>]\<rparr>)"
    by (simp add: Log_Append_eq NewLog_def)
  have "length (records NewLog) < 2 ^ 64 - 1" by (simp add: NewLog_def)
  from Log_append_read_roundtrip [OF this a] a show ?thesis by simp
qed

text \<open>
  C13. The invariant: in the log reached by any history of calls from \<open>NewLog\<close>, every
  record's \<open>Offset\<close> field is its own position in the slice.
\<close>

theorem Log_run_keeps_offsets:
  "Log_wf (snd (Log_run NewLog xs))"
  by (rule Log_run_wf) (simp add: Log_wf_def NewLog_def)

theorem Log_run_keeps_offsets_witness:
  "Log_wf (snd (Log_run NewLog srv_hist)) \<and>
   records (snd (Log_run NewLog srv_hist)) =
     [\<lparr>Value = [104, 105], Offset = 0\<rparr>, \<lparr>Value = [104, 101, 108, 108, 111], Offset = 1\<rparr>]"
  using Log_run_keeps_offsets [of srv_hist]
  by (simp add: NewLog_def Log_Append_eq Log_Read_def Let_def)

text \<open>
  C14. Offsets are sequential: in any history from \<open>NewLog\<close>, the appends, in the order
  the mutex admits them, receive the offsets \<open>0, 1, 2, \<dots>\<close>; none is skipped or reused.
\<close>

theorem Log_run_sequential_offsets:
  "offsets_of (fst (Log_run NewLog xs)) = map word_of_nat [0..<length (appended xs)]"
  using Log_run_offsets [of NewLog xs] by (simp add: NewLog_def)

text \<open>
  C15. The error of \<open>Read\<close>: on a log of fewer than \<open>2^64\<close> records, \<open>Read(off)\<close> fails
  exactly when \<open>off\<close> is not below the number of records, the error is then
  \<open>ErrOffsetNotFound\<close> and the record the zero \<open>Record{}\<close>; \<open>Read\<close> never changes the log.
\<close>

theorem Log_read_error:
  assumes "length (records c) < 2 ^ 64"
  shows "(snd (Log_Read c off) \<noteq> None \<longleftrightarrow> length (records c) \<le> unat off) \<and>
         (snd (Log_Read c off) \<noteq> None \<longrightarrow>
            Log_Read c off = (Record_zero, Some ErrOffsetNotFound)) \<and>
         snd (Log_call c (CRead off)) = c"
  using assms by (simp add: Log_Read_eq Let_def)

theorem Log_read_error_witness:
  "Log_Read \<lparr>records = [\<lparr>Value = [104, 105], Offset = 0\<rparr>]\<rparr> 1 = (Record_zero, Some ErrOffsetNotFound)"
proof -
  have "length (records \<lparr>records = [\<lparr>Value = [104, 105], Offset = 0\<rparr>]\<rparr>) < 2 ^ 64" by simp
  from Log_read_error [OF this, of 1] show ?thesis by simp
qed

text \<open>
  C16. Refinement: the server log implements the abstract log of values. For every
  history on a log whose records and appends number fewer than \<open>2^64\<close>, the replies,
  read through \<open>abs_reply\<close>, are those of the abstract log started from the values
  already stored.
\<close>

theorem Log_run_refines_abstract:
  assumes "length (records c) + length (appended xs) < 2 ^ 64"
  shows "map (\<lambda>(t, r). (t, abs_reply r)) (fst (Log_run c xs)) = abs_run (map Value (records c)) xs"
  using Log_run_refines [OF assms] .

theorem Log_run_refines_abstract_witness:
  "map (\<lambda>(t, r). (t, abs_reply r)) (fst (Log_run NewLog srv_hist)) =
     [(0, AAppend 0), (1, AAppend 1), (0, ARead (Some [104, 101, 108, 108, 111])), (1, ARead None)]"
proof -
  have h: "length (records NewLog) + length (appended srv_hist) < 2 ^ 64"
    by (simp add: NewLog_def)
  have "map (\<lambda>(t, r). (t, abs_reply r)) (fst (Log_run NewLog srv_hist)) =
          abs_run (map Value (records NewLog)) srv_hist"
    by (rule Log_run_refines_abstract [OF h])
  also have "\<dots> = [(0, AAppend 0), (1, AAppend 1), (0, ARead (Some [104, 101, 108, 108, 111])),
                    (1, ARead None)]"
    by (simp add: NewLog_def)
  finally show ?thesis .
qed

end
