(* ===== verification/Http.thy ===== *)
theory Http
  imports ServerLog
begin

text \<open>
  The HTTP front end, \<open>src/internal/server/http.go\<close>. \<open>NewHTTPServer\<close> routes
  \<open>GET /\<close> to \<open>handleConsume\<close> and \<open>POST /\<close> to \<open>handleProduce\<close> over one shared
  \<open>Log\<close>. Each handler decodes its JSON request (a decoding failure is a 400), makes one
  call on the log, and encodes its JSON response.

  A handler's effect is the list of writes it makes on the \<open>http.ResponseWriter\<close>:
  \<open>http.Error(w, msg, code)\<close> is \<open>HttpError code msg\<close>, a successful
  \<open>json.NewEncoder(w).Encode(res)\<close> is \<open>WriteJSON res\<close>. The decoded request is
  \<open>Inl msg\<close> when \<open>Decode\<close> fails with message \<open>msg\<close>; the writer's own failure, if
  any, is the parameter \<open>wr\<close> (\<open>Some msg\<close>: \<open>Encode\<close> fails with \<open>msg\<close>). The code
  does not return after the 500 that follows a failed \<open>Append\<close> or \<open>Read\<close>; the model
  keeps the writes that follow.

  Requests run in goroutines of \<open>net/http\<close>; their only shared state is the log, each
  handler makes exactly one call on it, and that call holds the log's mutex, so a
  concurrent run is the sequence of requests in the order their log calls take the lock
  (\<open>serve_all\<close>).
\<close>

record httpServer =
  srv_Log :: Log

definition newHTTPServer :: httpServer where
  "newHTTPServer = \<lparr>srv_Log = NewLog\<rparr>"

record ProduceRequest =
  preq_Record :: Record

record ProduceResponse =
  presp_Offset :: u64

record ConsumeRequest =
  creq_Offset :: u64

record ConsumeResponse =
  cresp_Record :: Record

datatype response = ProduceResp ProduceResponse | ConsumeResp ConsumeResponse

datatype resp_write = HttpError nat string | WriteJSON response

text \<open>\<open>err.Error()\<close> of the errors the handlers can see.\<close>

fun error_msg :: "error \<Rightarrow> string" where
  "error_msg ErrOffsetNotFound = ''offset not found''"
| "error_msg EOF = ''EOF''"
| "error_msg EINVAL = ''invalid argument''"
| "error_msg ENOENT = ''no such file or directory''"
| "error_msg (ErrOffsetOutOfRange off) = ''offset out of range''"
| "error_msg SlicePanic = ''slice bounds out of range''"

definition handleProduce ::
  "httpServer \<Rightarrow> string + ProduceRequest \<Rightarrow> string option \<Rightarrow> resp_write list \<times> httpServer" where
  "handleProduce s req wr =
     (case req of
        Inl msg \<Rightarrow> ([HttpError 400 msg], s)
      | Inr r \<Rightarrow>
          (let res = Log_Append (srv_Log s) (preq_Record r);
               offset = fst (fst res);
               w1 = (case snd (fst res) of None \<Rightarrow> [] | Some e \<Rightarrow> [HttpError 500 (error_msg e)]);
               w2 = (case wr of
                       None \<Rightarrow> [WriteJSON (ProduceResp \<lparr>presp_Offset = offset\<rparr>)]
                     | Some m \<Rightarrow> [HttpError 500 m])
           in (w1 @ w2, s\<lparr>srv_Log := snd res\<rparr>)))"

definition handleConsume ::
  "httpServer \<Rightarrow> string + ConsumeRequest \<Rightarrow> string option \<Rightarrow> resp_write list" where
  "handleConsume s req wr =
     (case req of
        Inl msg \<Rightarrow> [HttpError 400 msg]
      | Inr r \<Rightarrow>
          (let res = Log_Read (srv_Log s) (creq_Offset r); record = fst res; err = snd res
           in if err = Some ErrOffsetNotFound then [HttpError 404 (error_msg ErrOffsetNotFound)]
              else (case err of None \<Rightarrow> [] | Some e \<Rightarrow> [HttpError 500 (error_msg e)]) @
                   (case wr of
                      None \<Rightarrow> [WriteJSON (ConsumeResp \<lparr>cresp_Record = record\<rparr>)]
                    | Some m \<Rightarrow> [HttpError 500 m])))"

subsection \<open>Routing and serving\<close>

text \<open>
  The chi router of \<open>NewHTTPServer\<close>: \<open>GET /\<close> and \<open>POST /\<close> are registered; another
  method on \<open>/\<close> is chi's 405, another path its 404.
\<close>

datatype route = RouteConsume | RouteProduce | RouteMethodNotAllowed | RouteNotFound

definition NewHTTPServer_route :: "string \<Rightarrow> string \<Rightarrow> route" where
  "NewHTTPServer_route method path =
     (if path = ''/'' then
        (if method = ''GET'' then RouteConsume
         else if method = ''POST'' then RouteProduce
         else RouteMethodNotAllowed)
      else RouteNotFound)"

text \<open>
  A request: method, path, its body as each handler would decode it, and whether the
  response writer fails.
\<close>

record http_request =
  req_method :: string
  req_path :: string
  req_produce :: "string + ProduceRequest"
  req_consume :: "string + ConsumeRequest"
  req_writer :: "string option"

definition serve :: "httpServer \<Rightarrow> http_request \<Rightarrow> resp_write list \<times> httpServer" where
  "serve s q =
     (case NewHTTPServer_route (req_method q) (req_path q) of
        RouteConsume \<Rightarrow> (handleConsume s (req_consume q) (req_writer q), s)
      | RouteProduce \<Rightarrow> handleProduce s (req_produce q) (req_writer q)
      | RouteMethodNotAllowed \<Rightarrow> ([HttpError 405 ''''], s)
      | RouteNotFound \<Rightarrow> ([HttpError 404 ''404 page not found''], s))"

fun serve_all :: "httpServer \<Rightarrow> http_request list \<Rightarrow> resp_write list list \<times> httpServer" where
  "serve_all s [] = ([], s)"
| "serve_all s (q # qs) =
     (let step = serve s q; rest = serve_all (snd step) qs in (fst step # fst rest, snd rest))"

text \<open>Requests of the tests' shape: a produce of a value, a consume of an offset.\<close>

definition produce_req :: "Record \<Rightarrow> http_request" where
  "produce_req r =
     \<lparr>req_method = ''POST'', req_path = ''/'',
      req_produce = Inr \<lparr>preq_Record = r\<rparr>,
      req_consume = Inl ''json: cannot unmarshal'', req_writer = None\<rparr>"

definition consume_req :: "u64 \<Rightarrow> http_request" where
  "consume_req off =
     \<lparr>req_method = ''GET'', req_path = ''/'',
      req_produce = Inl ''json: cannot unmarshal'',
      req_consume = Inr \<lparr>creq_Offset = off\<rparr>, req_writer = None\<rparr>"


subsection \<open>Lemmas\<close>

lemma handleProduce_ok:
  "handleProduce s (Inr r) None =
     ([WriteJSON (ProduceResp \<lparr>presp_Offset = word_of_nat (length (records (srv_Log s)))\<rparr>)],
      s\<lparr>srv_Log := snd (Log_Append (srv_Log s) (preq_Record r))\<rparr>)"
  by (simp add: handleProduce_def Log_Append_eq Let_def)

lemma handleConsume_eq:
  assumes "length (records (srv_Log s)) < 2 ^ 64"
  shows "handleConsume s (Inr r) wr =
    (if length (records (srv_Log s)) \<le> unat (creq_Offset r) then [HttpError 404 ''offset not found'']
     else (case wr of
             None \<Rightarrow> [WriteJSON (ConsumeResp \<lparr>cresp_Record = records (srv_Log s) ! unat (creq_Offset r)\<rparr>)]
           | Some m \<Rightarrow> [HttpError 500 m]))"
  using assms by (simp add: handleConsume_def Log_Read_eq Let_def split: option.split)

lemma snd_Log_Read:
  "snd (Log_Read c off) =
     (if word_of_nat (length (records c)) \<le> off then Some ErrOffsetNotFound else None)"
  by (simp add: Log_Read_def)

lemma serve_produce:
  "serve s (produce_req r) = handleProduce s (Inr \<lparr>preq_Record = r\<rparr>) None"
  by (simp add: serve_def produce_req_def NewHTTPServer_route_def)

lemma serve_consume:
  "serve s (consume_req off) = (handleConsume s (Inr \<lparr>creq_Offset = off\<rparr>) None, s)"
  by (simp add: serve_def consume_req_def NewHTTPServer_route_def)

lemma handleProduce_no_500:
  "HttpError 500 m \<notin> set (fst (handleProduce s req None))"
  by (cases req) (simp_all add: handleProduce_def Log_Append_eq Let_def)

lemma handleConsume_no_500:
  "HttpError 500 m \<notin> set (handleConsume s req None)"
  by (cases req) (simp_all add: handleConsume_def snd_Log_Read Let_def)

lemma serve_all_produce:
  "fst (serve_all s (map produce_req rs)) =
     map (\<lambda>k. [WriteJSON (ProduceResp \<lparr>presp_Offset = word_of_nat (length (records (srv_Log s)) + k)\<rparr>)])
       [0..<length rs]"
proof (induction rs arbitrary: s)
  case Nil
  then show ?case by simp
next
  case (Cons r rs)
  let ?s' = "s\<lparr>srv_Log := snd (Log_Append (srv_Log s) r)\<rparr>"
  have l: "length (records (srv_Log ?s')) = Suc (length (records (srv_Log s)))"
    by (simp add: Log_Append_eq)
  have "[0..<length (r # rs)] = 0 # map Suc [0..<length rs]"
    by (simp add: upt_conv_Cons map_Suc_upt del: upt_Suc)
  with Cons.IH [of ?s'] l show ?case
    by (simp add: serve_produce handleProduce_ok Let_def del: upt_Suc)
qed

subsection \<open>Properties of the HTTP server\<close>

text \<open>
  C17. Produce then consume (the test \<open>produce/consume a message\<close>): on a server whose
  log holds fewer than \<open>2^64 - 1\<close> records, \<open>POST /\<close> with record \<open>r\<close> answers the offset
  \<open>len(records)\<close>, and a following \<open>GET /\<close> of that offset answers \<open>r\<close> with that offset.
\<close>

theorem http_produce_then_consume:
  assumes n: "length (records (srv_Log s)) < 2 ^ 64 - 1"
  shows "\<exists>s'. serve s (produce_req r) =
               ([WriteJSON (ProduceResp \<lparr>presp_Offset = word_of_nat (length (records (srv_Log s)))\<rparr>)], s') \<and>
             fst (serve s' (consume_req (word_of_nat (length (records (srv_Log s)))))) =
               [WriteJSON (ConsumeResp \<lparr>cresp_Record = r\<lparr>Offset := word_of_nat (length (records (srv_Log s)))\<rparr>\<rparr>)]"
proof -
  let ?n = "length (records (srv_Log s))"
  let ?s' = "s\<lparr>srv_Log := snd (Log_Append (srv_Log s) r)\<rparr>"
  have p: "serve s (produce_req r) =
             ([WriteJSON (ProduceResp \<lparr>presp_Offset = word_of_nat ?n\<rparr>)], ?s')"
    by (simp add: serve_produce handleProduce_ok)
  have len: "length (records (srv_Log ?s')) = Suc ?n" by (simp add: Log_Append_eq)
  have u: "unat (word_of_nat ?n :: u64) = ?n" using n by (simp add: unat_of_nat_small)
  have "fst (serve ?s' (consume_req (word_of_nat ?n))) =
          [WriteJSON (ConsumeResp \<lparr>cresp_Record = r\<lparr>Offset := word_of_nat ?n\<rparr>\<rparr>)]"
    using n len u by (simp add: serve_consume handleConsume_eq Log_Append_eq)
  with p show ?thesis by blast
qed

theorem http_produce_then_consume_witness:
  "serve newHTTPServer (produce_req \<lparr>Value = [104, 105], Offset = 9\<rparr>) =
     ([WriteJSON (ProduceResp \<lparr>presp_Offset = 0\<rparr>)],
      \<lparr>srv_Log = \<lparr>records = [\<lparr>Value = [104, 105], Offset = 0\<rparr>]\<rparr>\<rparr>) \<and>
   fst (serve \<lparr>srv_Log = \<lparr>records = [\<lparr>Value = [104, 105], Offset = 0\<rparr>]\<rparr>\<rparr> (consume_req 0)) =
     [WriteJSON (ConsumeResp \<lparr>cresp_Record = \<lparr>Value = [104, 105], Offset = 0\<rparr>\<rparr>)]"
proof -
  have h: "length (records (srv_Log newHTTPServer)) < 2 ^ 64 - 1"
    by (simp add: newHTTPServer_def NewLog_def)
  have p: "serve newHTTPServer (produce_req \<lparr>Value = [104, 105], Offset = 9\<rparr>) =
     ([WriteJSON (ProduceResp \<lparr>presp_Offset = 0\<rparr>)],
      \<lparr>srv_Log = \<lparr>records = [\<lparr>Value = [104, 105], Offset = 0\<rparr>]\<rparr>\<rparr>)"
    by (simp add: serve_produce handleProduce_ok newHTTPServer_def NewLog_def Log_Append_eq)
  from http_produce_then_consume [OF h, of "\<lparr>Value = [104, 105], Offset = 9\<rparr>"] p
  show ?thesis by (simp add: newHTTPServer_def NewLog_def)
qed

text \<open>
  C18. The error responses: on a log of fewer than \<open>2^64\<close> records, \<open>GET /\<close> of an
  offset at or past the end answers only a 404 \<open>offset not found\<close> (the test
  \<open>consume past log boundary fails\<close>); a body that does not decode is a 400 with the
  decoder's message for either handler, and \<open>POST\<close> then leaves the log unchanged; a
  path other than \<open>/\<close> is chi's 404 and another method on \<open>/\<close> its 405.
\<close>

theorem http_error_responses:
  assumes "length (records (srv_Log s)) < 2 ^ 64"
  shows "(length (records (srv_Log s)) \<le> unat off \<longrightarrow>
            handleConsume s (Inr \<lparr>creq_Offset = off\<rparr>) wr = [HttpError 404 ''offset not found'']) \<and>
         handleConsume s (Inl msg) wr = [HttpError 400 msg] \<and>
         handleProduce s (Inl msg) wr = ([HttpError 400 msg], s) \<and>
         (req_path q \<noteq> ''/'' \<longrightarrow> serve s q = ([HttpError 404 ''404 page not found''], s)) \<and>
         (req_path q = ''/'' \<and> req_method q \<noteq> ''GET'' \<and> req_method q \<noteq> ''POST'' \<longrightarrow>
            serve s q = ([HttpError 405 ''''], s))"
  using assms
  by (simp add: handleConsume_eq)
     (simp add: handleConsume_def handleProduce_def serve_def NewHTTPServer_route_def)

theorem http_error_responses_witness:
  "handleConsume \<lparr>srv_Log = \<lparr>records = [\<lparr>Value = [104], Offset = 0\<rparr>]\<rparr>\<rparr> (Inr \<lparr>creq_Offset = 1\<rparr>) None
     = [HttpError 404 ''offset not found''] \<and>
   serve newHTTPServer (consume_req 0\<lparr>req_path := ''/x''\<rparr>) = ([HttpError 404 ''404 page not found''], newHTTPServer) \<and>
   serve newHTTPServer (consume_req 0\<lparr>req_method := ''PUT''\<rparr>) = ([HttpError 405 ''''], newHTTPServer)"
proof -
  have h: "length (records (srv_Log \<lparr>srv_Log = \<lparr>records = [\<lparr>Value = [104], Offset = 0\<rparr>]\<rparr>\<rparr>)) < 2 ^ 64"
    by simp
  have h0: "length (records (srv_Log newHTTPServer)) < 2 ^ 64"
    by (simp add: newHTTPServer_def NewLog_def)
  show ?thesis
    using http_error_responses [OF h, of 1 None]
      http_error_responses [OF h0, where q = "consume_req 0\<lparr>req_path := ''/x''\<rparr>"]
      http_error_responses [OF h0, where q = "consume_req 0\<lparr>req_method := ''PUT''\<rparr>"]
    by (simp_all add: consume_req_def)
qed

text \<open>
  C19. No internal error: whenever the response writer works, no request, on any
  server, gets a 500. \<open>Append\<close> never fails and \<open>Read\<close> fails only with
  \<open>ErrOffsetNotFound\<close>, so the 500 branches of both handlers (the ones with no
  \<open>return\<close> after \<open>http.Error\<close>) are dead.
\<close>

theorem http_no_internal_error:
  assumes "req_writer q = None"
  shows "\<forall>m. HttpError 500 m \<notin> set (fst (serve s q))"
  using assms handleProduce_no_500 handleConsume_no_500
  by (simp add: serve_def split: route.split)

theorem http_no_internal_error_witness:
  "\<forall>m. HttpError 500 m \<notin> set (fst (serve newHTTPServer (consume_req 3)))"
  using http_no_internal_error [of "consume_req 3" newHTTPServer] by (simp add: consume_req_def)

text \<open>
  C20. Produce stream (the test \<open>produce/consume stream\<close>): any sequence of
  \<open>POST /\<close> requests on a new server is answered with the offsets \<open>0, 1, 2, \<dots>\<close> in
  order, whatever offsets the clients put in their records.
\<close>

theorem http_produce_stream:
  "fst (serve_all newHTTPServer (map produce_req rs)) =
     map (\<lambda>k. [WriteJSON (ProduceResp \<lparr>presp_Offset = word_of_nat k\<rparr>)]) [0..<length rs]"
  using serve_all_produce [of newHTTPServer rs] by (simp add: newHTTPServer_def NewLog_def)

end
