(* ===== verification/ServerMutex.thy ===== *)
theory ServerMutex
  imports ServerLog
begin

text \<open>
  The server's log under concurrent clients. \<open>net/http\<close> runs each request in its own
  goroutine, so \<open>Append\<close> and \<open>Read\<close> of \<open>server/log.go\<close> run concurrently; each takes
  \<open>c.mu.Lock()\<close> first and releases it by \<open>defer c.mu.Unlock()\<close> after computing its
  results. The theory models this as an interleaving semantics: a system state \<open>msys\<close>
  holds the shared \<open>Log\<close>, the mutex (free, or held by a goroutine), a program counter
  per goroutine, and the history of completed calls; \<open>mstep\<close> is one atomic step of one
  goroutine, with one step per statement of the critical sections (lock; stamp the
  offset; store; or read; unlock and return). \<open>mreach\<close> is the set of states reachable
  from the empty log. The invariant \<open>msys_inv\<close>, proved by rule induction, gives mutual
  exclusion, linearizability of the completed calls to the sequential \<open>Log_run\<close> in
  the order the mutex admits them, sequential offsets, the well-formedness of the log
  in every state, and that every pending call completes.
\<close>

text \<open>
  Where a goroutine is in a call: idle, called but not holding the mutex, inside
  \<open>Append\<close> after \<open>Lock\<close> (line 18), after the offset is stamped (line 20), inside
  \<open>Read\<close> after \<open>Lock\<close> (line 31), or with its results computed and the deferred
  \<open>Unlock\<close> pending (lines 22 and 36--38).
\<close>

datatype pc =
    Idle
  | Calling call
  | AppendLocked Record
  | AppendStamped Record Record
  | ReadLocked u64
  | Returning call reply

record msys =
  mlog :: Log
  mu :: "nat option"
  pcs :: "nat \<Rightarrow> pc"
  hist :: "(nat \<times> call \<times> reply) list"

definition msys_init :: msys where
  "msys_init = \<lparr>mlog = NewLog, mu = None, pcs = (\<lambda>_. Idle), hist = []\<rparr>"

text \<open>
  One step of one goroutine \<open>t\<close>. \<open>Lock\<close> blocks while the mutex is held; the
  statements of the critical sections act on the shared log; the deferred \<open>Unlock\<close>
  frees the mutex and the call returns, which is when it enters the history.
\<close>

inductive mstep :: "msys \<Rightarrow> msys \<Rightarrow> bool" where
  invoke: "pcs s t = Idle \<Longrightarrow> mstep s (s\<lparr>pcs := (pcs s)(t := Calling x)\<rparr>)"
| lock_append: "pcs s t = Calling (CAppend r) \<Longrightarrow> mu s = None \<Longrightarrow>
     mstep s (s\<lparr>mu := Some t, pcs := (pcs s)(t := AppendLocked r)\<rparr>)"
| lock_read: "pcs s t = Calling (CRead off) \<Longrightarrow> mu s = None \<Longrightarrow>
     mstep s (s\<lparr>mu := Some t, pcs := (pcs s)(t := ReadLocked off)\<rparr>)"
| stamp: "pcs s t = AppendLocked r \<Longrightarrow>
     mstep s (s\<lparr>pcs := (pcs s)(t := AppendStamped r (r\<lparr>Offset := word_of_nat (length (records (mlog s)))\<rparr>))\<rparr>)"
| store: "pcs s t = AppendStamped r r' \<Longrightarrow>
     mstep s (s\<lparr>mlog := (mlog s)\<lparr>records := records (mlog s) @ [r']\<rparr>,
                pcs := (pcs s)(t := Returning (CAppend r) (RAppend (Offset r') None))\<rparr>)"
| read: "pcs s t = ReadLocked off \<Longrightarrow>
     mstep s (s\<lparr>pcs := (pcs s)(t := Returning (CRead off)
                  (RRead (fst (Log_Read (mlog s) off)) (snd (Log_Read (mlog s) off))))\<rparr>)"
| unlock: "pcs s t = Returning x rep \<Longrightarrow> mu s = Some t \<Longrightarrow>
     mstep s (s\<lparr>mu := None, pcs := (pcs s)(t := Idle), hist := hist s @ [(t, x, rep)]\<rparr>)"

inductive mreach :: "msys \<Rightarrow> bool" where
  init: "mreach msys_init"
| step: "mreach s \<Longrightarrow> mstep s s' \<Longrightarrow> mreach s'"

text \<open>Auxiliary notions of the invariant.\<close>

fun in_cs :: "pc \<Rightarrow> bool" where
  "in_cs Idle = False"
| "in_cs (Calling x) = False"
| "in_cs (AppendLocked r) = True"
| "in_cs (AppendStamped r r') = True"
| "in_cs (ReadLocked off) = True"
| "in_cs (Returning x rep) = True"

fun cs_ok :: "Log \<Rightarrow> Log \<Rightarrow> pc \<Rightarrow> bool" where
  "cs_ok L M (AppendStamped r r') = (M = L \<and> r' = r\<lparr>Offset := word_of_nat (length (records L))\<rparr>)"
| "cs_ok L M (Returning x rep) = (Log_call L x = (rep, M))"
| "cs_ok L M p = (M = L)"

definition calls_of :: "(nat \<times> call \<times> reply) list \<Rightarrow> (nat \<times> call) list" where
  "calls_of h = map (\<lambda>(t, x, r). (t, x)) h"

definition replies_of :: "(nat \<times> call \<times> reply) list \<Rightarrow> (nat \<times> reply) list" where
  "replies_of h = map (\<lambda>(t, x, r). (t, r)) h"

definition hist_log :: "msys \<Rightarrow> Log" where
  "hist_log s = snd (Log_run NewLog (calls_of (hist s)))"

definition lock_ok :: "msys \<Rightarrow> bool" where
  "lock_ok s \<longleftrightarrow> (\<forall>t. in_cs (pcs s t) \<longleftrightarrow> mu s = Some t)"

definition log_ok :: "msys \<Rightarrow> bool" where
  "log_ok s \<longleftrightarrow> (case mu s of None \<Rightarrow> mlog s = hist_log s | Some t \<Rightarrow> cs_ok (hist_log s) (mlog s) (pcs s t))"

definition msys_inv :: "msys \<Rightarrow> bool" where
  "msys_inv s \<longleftrightarrow>
     lock_ok s \<and> fst (Log_run NewLog (calls_of (hist s))) = replies_of (hist s) \<and> log_ok s"

text \<open>
  States for the witnesses: goroutine 0 holds the mutex in \<open>Append\<close> while goroutine 1
  waits in \<open>Read\<close>; and the state after goroutine 0 has returned.
\<close>

abbreviation demo_r :: Record where
  "demo_r \<equiv> \<lparr>Value = [104, 105], Offset = 7\<rparr>"

abbreviation ms_lock :: msys where
  "ms_lock \<equiv> \<lparr>mlog = NewLog, mu = Some 0,
     pcs = (\<lambda>_. Idle)(0 := AppendLocked demo_r, 1 := Calling (CRead 0)), hist = []\<rparr>"

abbreviation ms_done :: msys where
  "ms_done \<equiv> \<lparr>mlog = \<lparr>records = [demo_r\<lparr>Offset := 0\<rparr>]\<rparr>, mu = None,
     pcs = (\<lambda>_. Idle)(1 := Calling (CRead 0)), hist = [(0, CAppend demo_r, RAppend 0 None)]\<rparr>"

subsection \<open>The invariant\<close>

lemma Log_run_snoc:
  "Log_run c (xs @ [(t, x)]) =
     (fst (Log_run c xs) @ [(t, fst (Log_call (snd (Log_run c xs)) x))],
      snd (Log_call (snd (Log_run c xs)) x))"
proof (induction xs arbitrary: c)
  case Nil
  then show ?case by (simp add: Let_def)
next
  case (Cons a xs)
  obtain t' y where "a = (t', y)" by fastforce
  with Cons.IH show ?case by (simp add: Let_def)
qed

lemma msys_inv_init: "msys_inv msys_init"
  by (simp add: msys_inv_def lock_ok_def log_ok_def hist_log_def msys_init_def calls_of_def replies_of_def)

lemma lock_ok_holder: "lock_ok s \<Longrightarrow> in_cs (pcs s t) \<Longrightarrow> mu s = Some t"
  by (simp add: lock_ok_def)

lemma lock_ok_free: "lock_ok s \<Longrightarrow> \<not> in_cs (pcs s t) \<Longrightarrow> mu s \<noteq> Some t"
  by (simp add: lock_ok_def)

lemma lock_ok_update:
  assumes "lock_ok s" and "in_cs p \<longleftrightarrow> m = Some t"
    and "\<And>t'. t' \<noteq> t \<Longrightarrow> mu s = Some t' \<longleftrightarrow> m = Some t'"
  shows "lock_ok (s\<lparr>mu := m, pcs := (pcs s)(t := p)\<rparr>)"
  using assms unfolding lock_ok_def by auto

lemma lock_ok_update_pc:
  assumes "lock_ok s" and "in_cs p \<longleftrightarrow> in_cs (pcs s t)"
  shows "lock_ok (s\<lparr>pcs := (pcs s)(t := p)\<rparr>)"
  using assms unfolding lock_ok_def by auto

lemma lock_ok_frame:
  assumes "lock_ok s" and "mu s' = mu s" and "\<And>t'. t' \<noteq> t \<Longrightarrow> pcs s' t' = pcs s t'"
    and "in_cs (pcs s' t) \<longleftrightarrow> in_cs (pcs s t)"
  shows "lock_ok s'"
  unfolding lock_ok_def
proof
  fix t' show "in_cs (pcs s' t') \<longleftrightarrow> mu s' = Some t'"
    using assms by (cases "t' = t") (simp_all add: lock_ok_def)
qed

lemma msys_inv_step:
  assumes "mstep s s'" and "msys_inv s"
  shows "msys_inv s'"
  using assms
proof (induction rule: mstep.induct)
  case (invoke s t x)
  then have lk: "lock_ok s" by (simp add: msys_inv_def)
  with invoke.hyps have "mu s \<noteq> Some t" using lock_ok_free [of s t] by simp
  with lk have "lock_ok (s\<lparr>pcs := (pcs s)(t := Calling x)\<rparr>)"
    by (auto simp: lock_ok_def)
  moreover have "log_ok (s\<lparr>pcs := (pcs s)(t := Calling x)\<rparr>)"
    using invoke.prems \<open>mu s \<noteq> Some t\<close>
    by (auto simp: msys_inv_def log_ok_def hist_log_def split: option.splits)
  ultimately show ?case using invoke.prems by (simp add: msys_inv_def)
next
  case (lock_append s t r)
  then have lk: "lock_ok s" and lg: "mlog s = hist_log s"
    by (simp_all add: msys_inv_def log_ok_def)
  have "lock_ok (s\<lparr>mu := Some t, pcs := (pcs s)(t := AppendLocked r)\<rparr>)"
    using lock_append.hyps(2) by (intro lock_ok_update [OF lk]) simp_all
  moreover have "log_ok (s\<lparr>mu := Some t, pcs := (pcs s)(t := AppendLocked r)\<rparr>)"
    using lg by (simp add: log_ok_def hist_log_def)
  ultimately show ?case using lock_append.prems by (simp add: msys_inv_def)
next
  case (lock_read s t off)
  then have lk: "lock_ok s" and lg: "mlog s = hist_log s"
    by (simp_all add: msys_inv_def log_ok_def)
  have "lock_ok (s\<lparr>mu := Some t, pcs := (pcs s)(t := ReadLocked off)\<rparr>)"
    using lock_read.hyps(2) by (intro lock_ok_update [OF lk]) simp_all
  moreover have "log_ok (s\<lparr>mu := Some t, pcs := (pcs s)(t := ReadLocked off)\<rparr>)"
    using lg by (simp add: log_ok_def hist_log_def)
  ultimately show ?case using lock_read.prems by (simp add: msys_inv_def)
next
  case (stamp s t r)
  then have lk: "lock_ok s" by (simp add: msys_inv_def)
  with stamp.hyps have mu: "mu s = Some t" using lock_ok_holder [of s t] by simp
  with stamp have lg: "mlog s = hist_log s" by (simp add: msys_inv_def log_ok_def)
  let ?p = "AppendStamped r (r\<lparr>Offset := word_of_nat (length (records (mlog s)))\<rparr>)"
  have "lock_ok (s\<lparr>pcs := (pcs s)(t := ?p)\<rparr>)"
    using stamp.hyps by (intro lock_ok_update_pc [OF lk]) simp
  moreover have "log_ok (s\<lparr>pcs := (pcs s)(t := ?p)\<rparr>)"
    using lg mu by (simp add: log_ok_def hist_log_def)
  ultimately show ?case using stamp.prems by (simp add: msys_inv_def)
next
  case (store s t r r')
  then have lk: "lock_ok s" by (simp add: msys_inv_def)
  with store.hyps have mu: "mu s = Some t" using lock_ok_holder [of s t] by simp
  with store have lg: "mlog s = hist_log s"
    and r': "r' = r\<lparr>Offset := word_of_nat (length (records (hist_log s)))\<rparr>"
    by (simp_all add: msys_inv_def log_ok_def)
  let ?p = "Returning (CAppend r) (RAppend (Offset r') None)"
  let ?m = "(mlog s)\<lparr>records := records (mlog s) @ [r']\<rparr>"
  have "lock_ok (s\<lparr>mlog := ?m, pcs := (pcs s)(t := ?p)\<rparr>)"
    using store.hyps by (intro lock_ok_frame [OF lk, where t = t]) simp_all
  moreover have "log_ok (s\<lparr>mlog := ?m, pcs := (pcs s)(t := ?p)\<rparr>)"
    using lg mu r' by (simp add: log_ok_def hist_log_def Log_Append_eq Let_def)
  ultimately show ?case using store.prems by (simp add: msys_inv_def)
next
  case (read s t off)
  then have lk: "lock_ok s" by (simp add: msys_inv_def)
  with read.hyps have mu: "mu s = Some t" using lock_ok_holder [of s t] by simp
  with read have lg: "mlog s = hist_log s" by (simp add: msys_inv_def log_ok_def)
  let ?p = "Returning (CRead off) (RRead (fst (Log_Read (mlog s) off)) (snd (Log_Read (mlog s) off)))"
  have "lock_ok (s\<lparr>pcs := (pcs s)(t := ?p)\<rparr>)"
    using read.hyps by (intro lock_ok_update_pc [OF lk]) simp
  moreover have "log_ok (s\<lparr>pcs := (pcs s)(t := ?p)\<rparr>)"
    using lg mu by (simp add: log_ok_def hist_log_def Let_def)
  ultimately show ?case using read.prems by (simp add: msys_inv_def)
next
  case (unlock s t x rep)
  then have lk: "lock_ok s" and h: "fst (Log_run NewLog (calls_of (hist s))) = replies_of (hist s)"
    and lg: "log_ok s"
    by (simp_all add: msys_inv_def)
  from lg unlock.hyps have c: "Log_call (hist_log s) x = (rep, mlog s)"
    by (simp add: log_ok_def)
  have "lock_ok (s\<lparr>mu := None, pcs := (pcs s)(t := Idle), hist := hist s @ [(t, x, rep)]\<rparr>)"
    using lk unlock.hyps by (auto simp: lock_ok_def)
  moreover have "fst (Log_run NewLog (calls_of (hist s @ [(t, x, rep)]))) = replies_of (hist s @ [(t, x, rep)])"
    using h c by (simp add: calls_of_def replies_of_def Log_run_snoc hist_log_def)
  moreover have "log_ok (s\<lparr>mu := None, pcs := (pcs s)(t := Idle), hist := hist s @ [(t, x, rep)]\<rparr>)"
    using c by (simp add: log_ok_def hist_log_def calls_of_def Log_run_snoc)
  ultimately show ?case by (simp add: msys_inv_def)
qed

lemma mreach_inv: "mreach s \<Longrightarrow> msys_inv s"
  by (induction rule: mreach.induct) (auto intro: msys_inv_init msys_inv_step)

lemma finish_returning:
  assumes "mstep\<^sup>*\<^sup>* s0 s" and "pcs s u = Returning x rep" and "mu s = Some u"
    and "\<forall>t. t \<noteq> u \<longrightarrow> pcs s t = pcs s0 t" and "hist s = hist s0"
  shows "\<exists>s'. mstep\<^sup>*\<^sup>* s0 s' \<and> mu s' = None \<and> pcs s' u = Idle \<and>
           (\<forall>t. t \<noteq> u \<longrightarrow> pcs s' t = pcs s0 t) \<and> (\<exists>x rep. hist s' = hist s0 @ [(u, x, rep)])"
proof -
  let ?s' = "s\<lparr>mu := None, pcs := (pcs s)(u := Idle), hist := hist s @ [(u, x, rep)]\<rparr>"
  have "mstep s ?s'" using assms(2,3) by (rule mstep.unlock)
  with assms(1) have "mstep\<^sup>*\<^sup>* s0 ?s'" by (rule rtranclp.rtrancl_into_rtrancl)
  then show ?thesis using assms(4,5) by auto
qed

lemma holder_completes:
  assumes "in_cs (pcs s u)" and "mu s = Some u"
  shows "\<exists>s'. mstep\<^sup>*\<^sup>* s s' \<and> mu s' = None \<and> pcs s' u = Idle \<and>
           (\<forall>t. t \<noteq> u \<longrightarrow> pcs s' t = pcs s t) \<and> (\<exists>x rep. hist s' = hist s @ [(u, x, rep)])"
proof (cases "pcs s u")
  case (Returning x rep)
  then show ?thesis using finish_returning [of s s u x rep] assms(2) by simp
next
  case (ReadLocked off)
  let ?rep = "RRead (fst (Log_Read (mlog s) off)) (snd (Log_Read (mlog s) off))"
  let ?s1 = "s\<lparr>pcs := (pcs s)(u := Returning (CRead off) ?rep)\<rparr>"
  have "mstep s ?s1" using ReadLocked by (rule mstep.read)
  then have "mstep\<^sup>*\<^sup>* s ?s1" by (rule r_into_rtranclp)
  then show ?thesis using finish_returning [of s ?s1 u "CRead off" ?rep] assms(2) by simp
next
  case (AppendStamped r r')
  let ?s1 = "s\<lparr>mlog := (mlog s)\<lparr>records := records (mlog s) @ [r']\<rparr>,
                pcs := (pcs s)(u := Returning (CAppend r) (RAppend (Offset r') None))\<rparr>"
  have "mstep s ?s1" using AppendStamped by (rule mstep.store)
  then have "mstep\<^sup>*\<^sup>* s ?s1" by (rule r_into_rtranclp)
  then show ?thesis
    using finish_returning [of s ?s1 u "CAppend r" "RAppend (Offset r') None"] assms(2) by simp
next
  case (AppendLocked r)
  let ?r' = "r\<lparr>Offset := word_of_nat (length (records (mlog s)))\<rparr>"
  let ?s1 = "s\<lparr>pcs := (pcs s)(u := AppendStamped r ?r')\<rparr>"
  let ?s2 = "?s1\<lparr>mlog := (mlog ?s1)\<lparr>records := records (mlog ?s1) @ [?r']\<rparr>,
                pcs := (pcs ?s1)(u := Returning (CAppend r) (RAppend (Offset ?r') None))\<rparr>"
  have "mstep s ?s1" using AppendLocked by (rule mstep.stamp)
  moreover have "mstep ?s1 ?s2" by (rule mstep.store) simp
  ultimately have "mstep\<^sup>*\<^sup>* s ?s2" by (meson rtranclp.rtrancl_into_rtrancl r_into_rtranclp)
  then show ?thesis
    using finish_returning [of s ?s2 u "CAppend r" "RAppend (Offset ?r') None"] assms(2) by simp
qed (use assms(1) in simp_all)

lemma caller_completes:
  assumes "mu s = None" and "pcs s t = Calling x"
  shows "\<exists>s'. mstep\<^sup>*\<^sup>* s s' \<and> mu s' = None \<and> pcs s' t = Idle \<and>
           (\<forall>t'. t' \<noteq> t \<longrightarrow> pcs s' t' = pcs s t') \<and> (\<exists>x rep. hist s' = hist s @ [(t, x, rep)])"
proof -
  obtain p where st: "mstep s (s\<lparr>mu := Some t, pcs := (pcs s)(t := p)\<rparr>)" and cs: "in_cs p"
  proof (cases x)
    case (CAppend r)
    show ?thesis by (rule that [of "AppendLocked r"]) (use assms CAppend in \<open>auto intro: mstep.lock_append\<close>)
  next
    case (CRead off)
    show ?thesis by (rule that [of "ReadLocked off"]) (use assms CRead in \<open>auto intro: mstep.lock_read\<close>)
  qed
  let ?s1 = "s\<lparr>mu := Some t, pcs := (pcs s)(t := p)\<rparr>"
  from holder_completes [of ?s1 t] cs obtain s' where
    "mstep\<^sup>*\<^sup>* ?s1 s'" "mu s' = None" "pcs s' t = Idle" "\<forall>t'. t' \<noteq> t \<longrightarrow> pcs s' t' = pcs ?s1 t'"
    "\<exists>x rep. hist s' = hist ?s1 @ [(t, x, rep)]"
    by auto
  moreover from st this(1) have "mstep\<^sup>*\<^sup>* s s'" by (rule converse_rtranclp_into_rtranclp)
  ultimately show ?thesis by auto
qed

lemma mreach_step_eq: "mreach s \<Longrightarrow> mstep s s'' \<Longrightarrow> s'' = s' \<Longrightarrow> mreach s'"
  by (blast intro: mreach.step)

lemma msys_inv_log_wf: "msys_inv s \<Longrightarrow> Log_wf (mlog s)"
proof -
  assume inv: "msys_inv s"
  have wf: "Log_wf (hist_log s)"
    unfolding hist_log_def by (rule Log_run_wf) (simp add: Log_wf_def NewLog_def)
  show ?thesis
  proof (cases "mu s")
    case None
    with inv wf show ?thesis by (simp add: msys_inv_def log_ok_def)
  next
    case (Some t)
    with inv have c: "cs_ok (hist_log s) (mlog s) (pcs s t)" by (simp add: msys_inv_def log_ok_def)
    show ?thesis
    proof (cases "pcs s t")
      case (Returning x rep)
      with c have "mlog s = snd (Log_call (hist_log s) x)" by (simp add: prod_eq_iff)
      with wf show ?thesis by (simp add: Log_wf_call)
    qed (use c wf in simp_all)
  qed
qed

lemma idle_upd: "(\<lambda>_. Idle)(t := Idle) = (\<lambda>_. Idle)"
  by (rule ext) simp

lemma demo_reach: "mreach ms_lock \<and> mreach ms_done"
proof -
  let ?s1 = "\<lparr>mlog = NewLog, mu = None, pcs = (\<lambda>_. Idle)(0 := Calling (CAppend demo_r)), hist = []\<rparr>"
  let ?s2 = "\<lparr>mlog = NewLog, mu = None,
     pcs = (\<lambda>_. Idle)(0 := Calling (CAppend demo_r), 1 := Calling (CRead 0)), hist = []\<rparr>"
  let ?s4 = "\<lparr>mlog = NewLog, mu = Some 0,
     pcs = (\<lambda>_. Idle)(0 := AppendStamped demo_r (demo_r\<lparr>Offset := 0\<rparr>), 1 := Calling (CRead 0)),
     hist = []\<rparr>"
  let ?s5 = "\<lparr>mlog = \<lparr>records = [demo_r\<lparr>Offset := 0\<rparr>]\<rparr>, mu = Some 0,
     pcs = (\<lambda>_. Idle)(0 := Returning (CAppend demo_r) (RAppend 0 None), 1 := Calling (CRead 0)),
     hist = []\<rparr>"
  have "mreach ?s1"
    using mreach_step_eq [OF mreach.init mstep.invoke [of msys_init 0 "CAppend demo_r"]]
    by (simp add: msys_init_def)
  then have "mreach ?s2"
    using mreach_step_eq [OF _ mstep.invoke [of ?s1 1 "CRead 0"]] by simp
  then have l: "mreach ms_lock"
    using mreach_step_eq [OF _ mstep.lock_append [of ?s2 0 demo_r]] by (simp add: fun_upd_twist)
  then have "mreach ?s4"
    using mreach_step_eq [OF _ mstep.stamp [of ms_lock 0 demo_r]]
    by (simp add: NewLog_def fun_upd_twist)
  then have "mreach ?s5"
    using mreach_step_eq [OF _ mstep.store [of ?s4 0 demo_r "demo_r\<lparr>Offset := 0\<rparr>"]]
    by (simp add: NewLog_def fun_upd_twist)
  then have "mreach ms_done"
    using mreach_step_eq [OF _ mstep.unlock [of ?s5 0 "CAppend demo_r" "RAppend 0 None"]]
    by (simp add: fun_upd_twist idle_upd)
  with l show ?thesis by simp
qed

subsection \<open>Properties of the concurrent log\<close>

text \<open>
  C21. Mutual exclusion: in every reachable state at most one goroutine is inside a
  critical section of \<open>Append\<close> or \<open>Read\<close> (between \<open>c.mu.Lock()\<close> and the deferred
  \<open>c.mu.Unlock()\<close>).
\<close>

theorem mutex_exclusion:
  assumes "mreach s" and "in_cs (pcs s t1)" and "in_cs (pcs s t2)"
  shows "t1 = t2"
proof -
  have lk: "lock_ok s" using mreach_inv [OF assms(1)] by (simp add: msys_inv_def)
  show ?thesis using lock_ok_holder [OF lk assms(2)] lock_ok_holder [OF lk assms(3)] by simp
qed

theorem mutex_exclusion_witness: "mreach ms_lock \<and> in_cs (pcs ms_lock 0) \<and> in_cs (pcs ms_lock 0) \<and> (0::nat) = 0"
  using mutex_exclusion [of ms_lock 0 0] demo_reach by simp


text \<open>
  C22. Linearizability: in every reachable state the replies of the completed calls are
  those of the sequential log \<open>Log_run\<close> applied to the calls in the order they
  released the mutex, and whenever the mutex is free the shared log is the log that
  sequential run leaves.
\<close>

theorem mutex_linearizable:
  assumes "mreach s"
  shows "fst (Log_run NewLog (calls_of (hist s))) = replies_of (hist s) \<and>
         (mu s = None \<longrightarrow> mlog s = snd (Log_run NewLog (calls_of (hist s))))"
  using mreach_inv [OF assms] by (auto simp: msys_inv_def log_ok_def hist_log_def)

theorem mutex_linearizable_witness: "mreach ms_done \<and> fst (Log_run NewLog (calls_of (hist ms_done))) = [(0, RAppend 0 None)]
  \<and> mlog ms_done = snd (Log_run NewLog (calls_of (hist ms_done)))"
  using mutex_linearizable [of ms_done] demo_reach by (simp add: replies_of_def)


text \<open>
  C23. Under any interleaving of goroutines, the completed appends, in the order the
  mutex admitted them, received the offsets \<open>0, 1, 2, \<dots>\<close>: no offset is handed out twice
  or skipped.
\<close>

theorem mutex_offsets:
  assumes "mreach s"
  shows "offsets_of (replies_of (hist s)) = map word_of_nat [0..<length (appended (calls_of (hist s)))]"
proof -
  have "fst (Log_run NewLog (calls_of (hist s))) = replies_of (hist s)"
    using mreach_inv [OF assms] by (simp add: msys_inv_def)
  with Log_run_offsets [of NewLog "calls_of (hist s)"] show ?thesis by (simp add: NewLog_def)
qed

theorem mutex_offsets_witness: "mreach ms_done \<and> offsets_of (replies_of (hist ms_done)) = [0]"
  using mutex_offsets [of ms_done] demo_reach by (simp add: calls_of_def)


text \<open>
  C24. In every reachable state, also in the middle of a critical section, each stored
  record carries its own position in \<open>c.records\<close> as its offset.
\<close>

theorem mutex_log_wf:
  assumes "mreach s"
  shows "Log_wf (mlog s)"
  using msys_inv_log_wf [OF mreach_inv [OF assms]] .

theorem mutex_log_wf_witness: "mreach ms_done \<and> Log_wf (mlog ms_done)"
  using mutex_log_wf [of ms_done] demo_reach by simp


text \<open>
  C25. Every pending call completes: from any reachable state in which a goroutine has
  called \<open>Append\<close> or \<open>Read\<close> and not returned, the system can run (the goroutine that
  holds the mutex finishing first) to a state where that goroutine has returned and its
  call is recorded in the history.
\<close>

theorem mutex_call_completes:
  assumes "mreach s" and "pcs s t \<noteq> Idle"
  shows "\<exists>s' h x rep. mstep\<^sup>*\<^sup>* s s' \<and> pcs s' t = Idle \<and> hist s' = hist s @ h \<and> (t, x, rep) \<in> set h"
proof -
  have lk: "lock_ok s" using mreach_inv [OF assms(1)] by (simp add: msys_inv_def)
  show ?thesis
  proof (cases "in_cs (pcs s t)")
    case True
    with lk have "mu s = Some t" by (rule lock_ok_holder)
    with True show ?thesis using holder_completes [of s t] by fastforce
  next
    case False
    with assms(2) obtain x where x: "pcs s t = Calling x" by (cases "pcs s t") simp_all
    show ?thesis
    proof (cases "mu s")
      case None
      with x show ?thesis using caller_completes [of s t x] by fastforce
    next
      case (Some u)
      with lk have "in_cs (pcs s u)" by (simp add: lock_ok_def)
      from holder_completes [OF this Some] obtain s1 y rep1 where s1: "mstep\<^sup>*\<^sup>* s s1" "mu s1 = None"
        "\<forall>t'. t' \<noteq> u \<longrightarrow> pcs s1 t' = pcs s t'" "hist s1 = hist s @ [(u, y, rep1)]"
        by blast
      have "u \<noteq> t" using False Some lk by (auto simp: lock_ok_def)
      with s1(3) x have "pcs s1 t = Calling x" by simp
      from caller_completes [OF s1(2) this] obtain s2 z rep2 where s2: "mstep\<^sup>*\<^sup>* s1 s2"
        "pcs s2 t = Idle" "hist s2 = hist s1 @ [(t, z, rep2)]"
        by blast
      from s1(1) s2(1) have "mstep\<^sup>*\<^sup>* s s2" by (rule rtranclp_trans)
      with s2(2,3) s1(4) show ?thesis by fastforce
    qed
  qed
qed

theorem mutex_call_completes_witness: "mreach ms_lock \<and> pcs ms_lock 1 \<noteq> Idle \<and>
  (\<exists>s' h x rep. mstep\<^sup>*\<^sup>* ms_lock s' \<and> pcs s' 1 = Idle \<and> hist s' = hist ms_lock @ h \<and> (1, x, rep) \<in> set h)"
  using mutex_call_completes [of ms_lock 1] demo_reach by simp

end
