(* ===== verification/Spec2Isabelle.thy ===== *)
theory Spec2Isabelle
  imports Segment Http ServerMutex
begin

text \<open>
  \<^bold>\<open>A verification development of monolog, a segmented commit log in Go.\<close>

  \<^bold>\<open>The program.\<close> The repository has two layers. The storage engine (package
  \<open>internal/log\<close>) keeps records in segments; each segment pairs a \<^emph>\<open>store\<close> (a file of
  length-prefixed records) with an \<^emph>\<open>index\<close> (a memory-mapped file of 12-byte entries
  that map a record's offset relative to the segment's base offset to the record's byte
  position in the store); the \<^emph>\<open>log\<close> chains segments into one offset space. Of the
  engine only \<open>src/internal/log/index.go\<close> is in the sources; \<open>store.go\<close>,
  \<open>segment.go\<close>, \<open>log.go\<close> and \<open>config.go\<close> of the same package are not; the codec
  and the configuration they declare are modelled from the specification. The server
  (package \<open>internal/server\<close>) keeps its own in-memory log (\<open>src/internal/server/log.go\<close>:
  a slice of records behind a mutex) and serves it over HTTP
  (\<open>src/internal/server/http.go\<close>: \<open>POST /\<close> produces a record, \<open>GET /\<close> consumes one by
  offset); \<open>src/cmd/server/main.go\<close> starts that server on port 8080. Each HTTP request
  runs in its own goroutine, so the server log is used concurrently.

  \<^bold>\<open>The library\<close> (imports go upward: Prelude, Enc, Index; Prelude, ServerLog, Http and
  ServerMutex).
  \<^item> \<open>Prelude\<close>: the machine types (\<open>byte\<close>, \<open>u32\<close>, \<open>u64\<close>, and \<open>i64\<close> as 64-bit
    patterns read with \<open>sint\<close>), the error type \<open>error\<close> shared by all components
    (\<open>io.EOF\<close>, \<open>EINVAL\<close>, \<open>ENOENT\<close>, \<open>ErrOffsetNotFound\<close>, \<open>ErrOffsetOutOfRange\<close>, and
    \<open>SlicePanic\<close> for Go's run-time panic on an out-of-range slice), results as
    \<open>error + 'a\<close>, the engine's \<open>Config\<close>, Go's slice expressions with their panics,
    the operating-system calls the engine makes (\<open>os.Truncate\<close>, \<open>gommap.Map\<close>,
    \<open>ReadAt\<close>) over a file system \<open>fs\<close> that maps file names to byte lists, and the
    word lemmas the components share.
  \<^item> \<open>Enc\<close>: the codec \<open>enc = binary.BigEndian\<close> (\<open>PutUint32\<close>, \<open>Uint32\<close>,
    \<open>PutUint64\<close>, \<open>Uint64\<close>, as \<open>encoding/binary\<close> writes them) and its round trips.
  \<^item> \<open>Index\<close>: \<open>index.go\<close> whole: the record \<open>index\<close> (\<open>file\<close>, \<open>mmap\<close>, \<open>size\<close>),
    \<open>newIndex\<close>, \<open>index_Close\<close>, \<open>index_Read\<close>, \<open>index_Write\<close>, \<open>index_Name\<close>, and
    the constants \<open>offWidth\<close>, \<open>posWidth\<close>, \<open>entWidth\<close>. While the index is open its
    file is the mapping \<open>mmap\<close>; \<open>Close\<close> writes the mapping back and truncates. The
    abstraction \<open>index_entries\<close> decodes the written part of the mapping; \<open>index_inv\<close>
    says the written part is a whole number of entries inside a mapping shorter than
    \<open>2^63\<close> bytes (the bound under which no \<open>u64\<close> sum of the code wraps and every
    \<open>int64\<close> conversion of a size is non-negative).
  \<^item> \<open>ServerLog\<close>: \<open>server/log.go\<close>: \<open>Record\<close>, \<open>Log\<close>, \<open>NewLog\<close>, \<open>Log_Append\<close>,
    \<open>Log_Read\<close>; a call datatype and \<open>Log_run\<close>, the sequential execution of a history of
    calls as the mutex serialises them; the abstraction \<open>abs_run\<close> to a list of values.
  \<^item> \<open>Http\<close>: \<open>http.go\<close>: the request and response types, \<open>handleProduce\<close>,
    \<open>handleConsume\<close> (every branch, including the failing JSON decoder and a failing
    response writer), the chi routing of \<open>NewHTTPServer\<close> as \<open>serve\<close>, and \<open>serve_all\<close>
    for a sequence of requests. A handler's output is the list of writes it makes to
    the \<open>ResponseWriter\<close>.
  \<^item> \<open>ServerMutex\<close>: the concurrent use of the server log: an interleaving semantics
    \<open>mstep\<close> in which each goroutine takes \<open>c.mu\<close>, runs the statements of \<open>Append\<close>
    or \<open>Read\<close> one per step, and returns at the deferred \<open>Unlock\<close>; the reachable
    states \<open>mreach\<close> and the invariant \<open>msys_inv\<close>.

  \<^bold>\<open>What is proved.\<close>
  \<^item> Index (C1--C11): \<open>Write\<close> refines appending to the entry list and keeps the
    invariant; \<open>Read\<close> refines indexing it, with \<open>io.EOF\<close> past the written entries; a
    written entry reads back by number and by the sentinel \<open>-1\<close>; \<open>Write\<close> fails only
    when the mapping is full; close then reopen gives the same entries; \<open>newIndex\<close>
    pre-allocates and fails on each error branch as the code does. The proofs rest on
    the round trips of \<open>Enc\<close> and on the closed forms \<open>index_Write_eq\<close> and
    \<open>index_Read_out\<close> under the invariant, which settle the word arithmetic once. The
    model also shows three behaviours the specification does not intend: a read of
    entry \<open>2^32 + k\<close> aliases entry \<open>k\<close> (the \<open>uint32\<close> conversion); a crash before
    \<open>Close\<close> leaves the file at \<open>MaxIndexBytes\<close>, so reopening counts the zero padding
    as entries; an index file longer than \<open>MaxIndexBytes\<close> makes \<open>Read\<close> panic.
  \<^item> Server log (C12--C16): append then read returns the record; every record carries
    its position as offset; any sequential history hands out offsets \<open>0, 1, 2, \<dots>\<close>;
    the read error; refinement of any history to the abstract list of values.
  \<^item> HTTP (C17--C21): produce then consume returns the record; the 400, 404 and 405
    responses; with a working writer no request gets a 500 (the 500 branches lack a
    \<open>return\<close>, and would write a second response if they were reached); a stream of
    produces is answered \<open>0, 1, 2, \<dots>\<close>; the test scenario of the specification.
  \<^item> Concurrency (C22--C26): mutual exclusion; linearizability of every reachable
    state's completed calls to \<open>Log_run\<close>; sequential offsets under any interleaving;
    the record-offset invariant inside critical sections; every pending call can
    complete (the lock holder finishes in at most three steps, then the waiter).

  No definition needs fuel: every loop of the sources is structural recursion over a
  list (\<open>Log_run\<close>, \<open>serve_all\<close>), and reachability is an inductive predicate.

  \<^bold>\<open>Not modelled.\<close> \<open>main.go\<close> (process wiring and \<open>ListenAndServe\<close>); the network
  transport and JSON encoding (a decoded request, or the decoder's error message, is
  the handler's argument); the operating system beyond the calls above (stat, sync and
  unmapping have no observable effect on the file contents in this model). The store,
  the segment and the segmented log are not under \<open>src/\<close>; they are the next part
  of the development, modelled from the specification.
\<close>

end
